theory Spec2Isabelle
  imports Complex_Main
begin

section \<open>Numbers\<close>

text \<open>
  The model is the behaviour of each operation of \<open>Cue\<close> and \<open>CueManager\<close> when one
  thread runs it. A \<open>QString\<close> is a string, a \<open>Cue*\<close> an address into an explicit store
  of cue objects, a \<open>double\<close> a binary64 value. A signal that is emitted is appended to
  a list, in the order of the \<open>emit\<close> statements; \<open>qDebug\<close> output is left out.
\<close>

subsection \<open>double\<close>

text \<open>
  The values of a \<open>double\<close> (IEEE 754 binary64): the finite ones by their value, the two
  infinities, and NaN. The two zeros are one value. \<open>Finite x\<close> is meant for the \<open>x\<close>
  that binary64 represents; the results of the operations below are of that kind.
\<close>

datatype double = Finite real | PlusInfinity | MinusInfinity | NaN

text \<open>\<open>pow2 k\<close> is 2 to the power \<open>k\<close>, for an integer \<open>k\<close>.\<close>

definition pow2 :: "int \<Rightarrow> real" where
  "pow2 k = (if 0 \<le> k then 2 ^ nat k else 1 / 2 ^ nat (- k))"

text \<open>
  The binary exponent of a positive number \<open>x\<close>: the \<open>e\<close> with \<open>2^e \<le> x < 2^(e+1)\<close>,
  found by halving from 1 upwards or doubling from 1 downwards; it stops at \<open>-1022\<close>,
  the exponent that the subnormal numbers share, and at \<open>1024\<close>, above every finite value.
\<close>

function binade_up :: "int \<Rightarrow> real \<Rightarrow> int" where
  "binade_up e x = (if x < 2 \<or> 1024 \<le> e then e else binade_up (e + 1) (x / 2))"
  by pat_completeness auto
termination
  by (relation "measure (\<lambda>(e, x). nat (1024 - e))") auto

function binade_down :: "int \<Rightarrow> real \<Rightarrow> int" where
  "binade_down e x = (if 1 \<le> x \<or> e \<le> - 1022 then e else binade_down (e - 1) (2 * x))"
  by pat_completeness auto
termination
  by (relation "measure (\<lambda>(e, x). nat (e + 1022))") auto

declare binade_up.simps [simp del]
declare binade_down.simps [simp del]

definition binade :: "real \<Rightarrow> int" where
  "binade x = (if 1 \<le> \<bar>x\<bar> then binade_up 0 \<bar>x\<bar> else binade_down 0 \<bar>x\<bar>)"

text \<open>The integer nearest to \<open>y\<close>, the even one of the two when \<open>y\<close> lies half way.\<close>

definition round_half_even :: "real \<Rightarrow> int" where
  "round_half_even y =
     (let f = \<lfloor>y\<rfloor>; d = y - of_int f
      in if d < 1 / 2 then f else if 1 / 2 < d then f + 1 else if even f then f else f + 1)"

text \<open>
  Rounding to nearest, ties to even, the rounding of every arithmetic operation on
  \<open>double\<close>: the result is the multiple of \<open>2^(e-52)\<close> nearest to \<open>x\<close>, where \<open>e\<close> is the
  exponent of \<open>x\<close> (53 significant bits), and an infinity when that multiple reaches
  \<open>2^1024\<close>.
\<close>

definition round_to_double :: "real \<Rightarrow> double" where
  "round_to_double x =
     (if x = 0 then Finite 0
      else
        let q = pow2 (binade x - 52);
            y = of_int (round_half_even (x / q)) * q
        in if pow2 1024 \<le> y then PlusInfinity
           else if y \<le> - pow2 1024 then MinusInfinity
           else Finite y)"

fun dneg :: "double \<Rightarrow> double" where
  "dneg (Finite x) = Finite (- x)"
| "dneg PlusInfinity = MinusInfinity"
| "dneg MinusInfinity = PlusInfinity"
| "dneg NaN = NaN"

text \<open>\<open>a + b\<close>, \<open>a - b\<close> and \<open>a * b\<close> on \<open>double\<close>.\<close>

fun dadd :: "double \<Rightarrow> double \<Rightarrow> double" where
  "dadd NaN b = NaN"
| "dadd a NaN = NaN"
| "dadd (Finite x) (Finite y) = round_to_double (x + y)"
| "dadd (Finite x) b = b"
| "dadd a (Finite y) = a"
| "dadd a b = (if a = b then a else NaN)"

definition dsub :: "double \<Rightarrow> double \<Rightarrow> double" where
  "dsub a b = dadd a (dneg b)"

fun dmul :: "double \<Rightarrow> double \<Rightarrow> double" where
  "dmul NaN b = NaN"
| "dmul a NaN = NaN"
| "dmul (Finite x) (Finite y) = round_to_double (x * y)"
| "dmul (Finite x) b =
     (if x = 0 then NaN else if (0 < x) = (b = PlusInfinity) then PlusInfinity else MinusInfinity)"
| "dmul a (Finite y) =
     (if y = 0 then NaN else if (0 < y) = (a = PlusInfinity) then PlusInfinity else MinusInfinity)"
| "dmul a b = (if a = b then PlusInfinity else MinusInfinity)"

text \<open>\<open>a < b\<close> and \<open>a <= b\<close> on \<open>double\<close>; every comparison with NaN is false.\<close>

fun dlt :: "double \<Rightarrow> double \<Rightarrow> bool" where
  "dlt NaN b = False"
| "dlt a NaN = False"
| "dlt (Finite x) (Finite y) = (x < y)"
| "dlt a PlusInfinity = (a \<noteq> PlusInfinity)"
| "dlt MinusInfinity b = (b \<noteq> MinusInfinity)"
| "dlt a b = False"

definition dle :: "double \<Rightarrow> double \<Rightarrow> bool" where
  "dle a b = (dlt a b \<or> (a = b \<and> a \<noteq> NaN))"

text \<open>
  The templates of \<open>QtGlobal\<close> at the type \<open>double\<close>: \<open>qAbs(t)\<close> is \<open>t >= 0 ? t : -t\<close>,
  \<open>qMax(a, b)\<close> is \<open>(a < b) ? b : a\<close>, \<open>qMin(a, b)\<close> is \<open>(a < b) ? a : b\<close>, and
  \<open>qBound(min, val, max)\<close> is \<open>qMax(min, qMin(max, val))\<close>.
\<close>

definition qAbs :: "double \<Rightarrow> double" where
  "qAbs t = (if dle (Finite 0) t then t else dneg t)"

definition qMax :: "double \<Rightarrow> double \<Rightarrow> double" where
  "qMax a b = (if dlt a b then b else a)"

definition qMin :: "double \<Rightarrow> double \<Rightarrow> double" where
  "qMin a b = (if dlt a b then a else b)"

definition qBound :: "double \<Rightarrow> double \<Rightarrow> double \<Rightarrow> double" where
  "qBound lo val hi = qMax lo (qMin hi val)"

text \<open>The literal \<open>0.001\<close>: the \<open>double\<close> nearest to one thousandth.\<close>

definition tolerance :: double where
  "tolerance = round_to_double (1 / 1000)"

text \<open>
  \<open>static_cast<int>(d)\<close> drops the fraction. C++ leaves the conversion undefined when
  the result does not fit the 32 bits of an \<open>int\<close>, and for an infinity or NaN: \<open>None\<close>.
\<close>

definition static_cast_int :: "double \<Rightarrow> int option" where
  "static_cast_int d =
     (case d of
        Finite x \<Rightarrow>
          let n = (if 0 \<le> x then \<lfloor>x\<rfloor> else \<lceil>x\<rceil>)
          in if - (2 ^ 31) \<le> n \<and> n < 2 ^ 31 then Some n else None
      | _ \<Rightarrow> None)"

section \<open>The cue: data model of Cue.h\<close>

datatype CueType =
  Audio | Video | MIDI | Wait | Start | Stop | Goto | Fade | Group | Target | Load | Script

text \<open>
  \<open>enum class CueStatus\<close>, in declaration order. \<open>static_cast<CueStatus>(n)\<close> of an
  integer outside \<open>0..6\<close> is an enumeration value without a name (\<open>statusString\<close> has a
  \<open>default\<close> branch for it): \<open>Unnamed n\<close>.
\<close>

datatype CueStatus =
  Loaded | Playing | Paused | Stopped | Loading | Broken | Armed | Unnamed int




text \<open>Qt value types the cue stores.\<close>

datatype QColor = QColor (valid: bool) (red: nat) (green: nat) (blue: nat) (alpha: nat)

text \<open>
  A \<open>QDateTime\<close> is invalid (default-constructed), or a date and time: its ISO 8601 text
  to the second, which is what \<open>toString(Qt::ISODate)\<close> prints, and its milliseconds.
\<close>

datatype QDateTime = InvalidDateTime | DateTime string nat


definition doors_open :: QDateTime where
  "doors_open = DateTime ''2025-06-01T19:30:00'' 0"

definition curtain_up :: QDateTime where
  "curtain_up = DateTime ''2025-06-01T20:00:09'' 250"

text \<open>The scalar \<open>QVariant\<close>s; list- and map-valued variants are not modelled.\<close>

datatype QVariant =
  VInvalid | VBool bool | VInt int | VDouble double | VString string

datatype QJsonValue =
  JNull | JBool bool | JDouble double | JString string
  | JArray "QJsonValue list" | JObject "string \<Rightarrow> QJsonValue option"

text \<open>
  A single-shot \<open>QTimer\<close>: inactive, or started with an interval in milliseconds, the
  result of a \<open>static_cast<int>\<close>.
\<close>

datatype QTimer = Inactive | Active "int option"

type_synonym addr = nat

text \<open>
  Modelled from the spec: \<open>GroupCue\<close> (GroupCue.h is not among the sources) "extends
  CueEntity with an owned, ordered list of child CueEntities"; \<open>m_children\<close> is that
  list, of addresses, empty for every other kind of cue. The other fields are the
  private members of \<open>Cue\<close> in Cue.h; the member \<open>x_\<close> of the source is the field \<open>m_x\<close>.
\<close>

record Cue =
  m_id :: string
  m_type :: CueType
  m_number :: string
  m_name :: string
  m_status :: CueStatus
  m_armed :: bool
  m_flagged :: bool
  m_continueMode :: bool
  m_color :: QColor
  m_notes :: string
  m_duration :: double
  m_preWait :: double
  m_postWait :: double
  m_currentPosition :: double
  m_targetId :: string
  m_createdTime :: QDateTime
  m_modifiedTime :: QDateTime
  m_lastExecutedTime :: QDateTime
  m_customProperties :: "string \<Rightarrow> QVariant option"
  m_preWaitTimer :: QTimer
  m_postWaitTimer :: QTimer
  m_inPreWait :: bool
  m_inPostWait :: bool
  m_children :: "addr list"

datatype CueSignal =
  numberChanged | nameChanged | statusChanged | armedChanged | flaggedChanged
  | continueModeChanged | colorChanged | notesChanged | durationChanged | preWaitChanged
  | postWaitChanged | targetChanged | customPropertyChanged string QVariant
  | aboutToExecute | executionStarted | executionFinished | executionPaused
  | executionResumed | executionStopped | executionFailed string | progressChanged double
  | cueUpdated

text \<open>
  A member function that mutates the cue and emits signals maps the cue and the signals
  emitted so far to the updated cue and the extended signal list.
\<close>

type_synonym CueS = "Cue \<times> CueSignal list"

text \<open>
  The constructor \<open>Cue::Cue(type, parent)\<close>: \<open>uuid\<close> is the result of
  \<open>QUuid::createUuid\<close>, \<open>now\<close> that of \<open>QDateTime::currentDateTime\<close>.
\<close>

definition white :: QColor where
  "white = QColor True 255 255 255 255"

definition new_Cue :: "CueType \<Rightarrow> string \<Rightarrow> QDateTime \<Rightarrow> Cue" where
  "new_Cue type uuid now =
     \<lparr> m_id = uuid, m_type = type, m_number = ''1'', m_name = ''Untitled Cue'',
       m_status = Loaded, m_armed = False, m_flagged = False, m_continueMode = False,
       m_color = white, m_notes = [], m_duration = Finite 5, m_preWait = Finite 0,
       m_postWait = Finite 0, m_currentPosition = Finite 0, m_targetId = [], m_createdTime = now, m_modifiedTime = now,
       m_lastExecutedTime = InvalidDateTime, m_customProperties = Map.empty,
       m_preWaitTimer = Inactive, m_postWaitTimer = Inactive,
       m_inPreWait = False, m_inPostWait = False, m_children = [] \<rparr>"

subsection \<open>Property setters (Cue.cpp)\<close>

definition markModified :: "QDateTime \<Rightarrow> Cue \<Rightarrow> Cue" where
  "markModified now c = c\<lparr>m_modifiedTime := now\<rparr>"

definition setNumber :: "QDateTime \<Rightarrow> string \<Rightarrow> CueS \<Rightarrow> CueS" where
  "setNumber now number = (\<lambda>(c, out).
     if m_number c \<noteq> number
     then (markModified now (c\<lparr>m_number := number\<rparr>), out @ [numberChanged, cueUpdated])
     else (c, out))"

definition setName :: "QDateTime \<Rightarrow> string \<Rightarrow> CueS \<Rightarrow> CueS" where
  "setName now name = (\<lambda>(c, out).
     if m_name c \<noteq> name
     then (markModified now (c\<lparr>m_name := name\<rparr>), out @ [nameChanged, cueUpdated])
     else (c, out))"

definition setStatus :: "QDateTime \<Rightarrow> CueStatus \<Rightarrow> CueS \<Rightarrow> CueS" where
  "setStatus now status = (\<lambda>(c, out).
     if m_status c \<noteq> status
     then (markModified now (c\<lparr>m_status := status\<rparr>), out @ [statusChanged, cueUpdated])
     else (c, out))"






text \<open>
  The timing setters: \<open>if (qAbs(duration_ - duration) > 0.001) duration_ = qMax(0.0, duration)\<close>,
  in \<open>double\<close> arithmetic.
\<close>

definition setDuration :: "QDateTime \<Rightarrow> double \<Rightarrow> CueS \<Rightarrow> CueS" where
  "setDuration now duration = (\<lambda>(c, out).
     if dlt tolerance (qAbs (dsub (m_duration c) duration))
     then (markModified now (c\<lparr>m_duration := qMax (Finite 0) duration\<rparr>),
           out @ [durationChanged, cueUpdated])
     else (c, out))"




text \<open>\<open>qBound(0.0, position, 1.0)\<close>, then the change is kept when it exceeds \<open>0.001\<close>.\<close>

definition setCurrentPosition :: "double \<Rightarrow> CueS \<Rightarrow> CueS" where
  "setCurrentPosition position = (\<lambda>(c, out).
     let newPosition = qBound (Finite 0) position (Finite 1) in
     if dlt tolerance (qAbs (dsub (m_currentPosition c) newPosition))
     then (c\<lparr>m_currentPosition := newPosition\<rparr>, out @ [progressChanged newPosition])
     else (c, out))"

subsection \<open>Execution interface (Cue.h, Cue.cpp)\<close>

definition isExecuting :: "Cue \<Rightarrow> bool" where
  "isExecuting c = (m_status c = Playing \<or> m_status c = Loading)"

definition canExecute :: "Cue \<Rightarrow> bool" where
  "canExecute c = (m_status c = Loaded \<or> m_status c = Armed)"

text \<open>
  \<open>execute\<close> is pure virtual in \<open>Cue\<close>; the overrides of the subclasses are taken as the
  parameter \<open>execute\<close>. The timer is started with \<open>static_cast<int>(preWait_ * 1000)\<close>.
\<close>

definition executePreWait :: "(CueS \<Rightarrow> CueS) \<Rightarrow> QDateTime \<Rightarrow> CueS \<Rightarrow> CueS" where
  "executePreWait execute now = (\<lambda>(c, out).
     if dle (m_preWait c) (Finite 0) then execute (c, out)
     else (case setStatus now Loading (c\<lparr>m_inPreWait := True\<rparr>, out) of
             (c', out') \<Rightarrow>
               (c'\<lparr>m_preWaitTimer :=
                     Active (static_cast_int (dmul (m_preWait c') (Finite 1000)))\<rparr>, out')))"

definition trigger :: "(CueS \<Rightarrow> CueS) \<Rightarrow> QDateTime \<Rightarrow> CueS \<Rightarrow> CueS" where
  "trigger execute now = (\<lambda>(c, out).
     if \<not> canExecute c then (c, out)
     else if dlt (Finite 0) (m_preWait c)
     then executePreWait execute now (c, out @ [aboutToExecute])
     else execute (c, out @ [aboutToExecute]))"

subsection \<open>Serialization (Cue.cpp)\<close>























section \<open>The cue manager: data model of CueManager.h\<close>

datatype ManagerSignal =
  cueAdded addr int | cueRemoved string int | cueUpdated_of addr | cueMoved string int int
  | cueCountChanged | selectionChanged | selectedCuesChanged "string list"
  | playheadChanged | standByCueChanged string
  | playbackStateChanged | cueExecutionStarted string | cueExecutionFinished string
  | cueExecutionFailed string string | allCuesStopped
  | groupExpansionChanged string bool | groupCreated string | groupRemoved string
  | workspaceChanged | workspaceOpened string | workspaceSaved string
  | workspaceModified bool | cueValidationChanged string bool | brokenCueCountChanged int

text \<open>
  What an operation of the manager does besides changing its members, in order: a signal
  it emits, a call of the virtual \<open>Cue::stop(fadeTime)\<close> on a cue, a \<open>deleteLater\<close>.
  The fade time of every call of \<open>stop\<close> in CueManager.cpp is the literal \<open>0.0\<close>.
\<close>

datatype Event = Emitted ManagerSignal | Called_stop addr real | Called_deleteLater addr

text \<open>
  The members of \<open>CueManager\<close> (\<open>x_\<close> is \<open>m_x\<close>), the store \<open>heap\<close> of the cue
  objects the pointers refer to, the set \<open>connections\<close> of cues whose signals
  \<open>connectCueSignals\<close> has wired to the manager's slots, and the events so far.
\<close>

record CueManager =
  heap :: "addr \<Rightarrow> Cue"
  connections :: "addr set"
  m_cues :: "addr list"
  m_selectedCueIds :: "string list"
  m_standByCueId :: string
  m_workspacePath :: string
  m_hasUnsavedChanges :: bool
  m_isPaused :: bool
  m_activeCues :: "addr list"
  m_groupExpansionState :: "string \<Rightarrow> bool option"
  m_brokenCueCount :: int
  m_clipboard :: "QJsonValue list"
  m_statsValid :: bool
  trace :: "Event list"

definition emit :: "ManagerSignal \<Rightarrow> CueManager \<Rightarrow> CueManager" where
  "emit s m = m\<lparr>trace := trace m @ [Emitted s]\<rparr>"

definition markWorkspaceModified :: "CueManager \<Rightarrow> CueManager" where
  "markWorkspaceModified m =
     (if \<not> m_hasUnsavedChanges m
      then emit (workspaceModified True) (emit workspaceChanged (m\<lparr>m_hasUnsavedChanges := True\<rparr>))
      else m)"

subsection \<open>Slots, and calls into a cue\<close>

definition onCuePropertyChanged :: "addr \<Rightarrow> CueManager \<Rightarrow> CueManager" where
  "onCuePropertyChanged a m = emit (cueUpdated_of a) (markWorkspaceModified m)"

definition onCueStatusChanged :: "addr \<Rightarrow> CueManager \<Rightarrow> CueManager" where
  "onCueStatusChanged a m = emit playbackStateChanged m"

definition onCueExecutionFinished :: "addr \<Rightarrow> CueManager \<Rightarrow> CueManager" where
  "onCueExecutionFinished a m =
     emit playbackStateChanged
       (emit (cueExecutionFinished (m_id (heap m a)))
          (m\<lparr>m_activeCues := removeAll a (m_activeCues m)\<rparr>))"

text \<open>The three connections made by \<open>connectCueSignals\<close>; the sender is the cue at \<open>a\<close>.\<close>

fun deliver :: "addr \<Rightarrow> CueManager \<Rightarrow> CueSignal \<Rightarrow> CueManager" where
  "deliver a m cueUpdated = onCuePropertyChanged a m"
| "deliver a m statusChanged = onCueStatusChanged a m"
| "deliver a m executionFinished = onCueExecutionFinished a m"
| "deliver a m s = m"

text \<open>
  A call \<open>cue->f(...)\<close> of a member function on the cue object at address \<open>a\<close>: the object
  in the store is updated, and the signals it emitted reach the slots when the cue is wired.
\<close>

definition invoke :: "(CueS \<Rightarrow> CueS) \<Rightarrow> addr \<Rightarrow> CueManager \<Rightarrow> CueManager" where
  "invoke f a m =
     (case f (heap m a, []) of
        (c', sigs) \<Rightarrow>
          let m' = m\<lparr>heap := (heap m)(a := c')\<rparr>
          in if a \<in> connections m then foldl (deliver a) m' sigs else m')"

text \<open>
  \<open>Cue::stop(double fadeTime = 0.0)\<close> is pure virtual; the override of the cue's class is
  the parameter \<open>cue_stop\<close> of every operation that calls it. It acts on the cue object.
\<close>

definition invoke_stop :: "(real \<Rightarrow> CueS \<Rightarrow> CueS) \<Rightarrow> real \<Rightarrow> addr \<Rightarrow> CueManager \<Rightarrow> CueManager" where
  "invoke_stop cue_stop fadeTime a m =
     invoke (cue_stop fadeTime) a (m\<lparr>trace := trace m @ [Called_stop a fadeTime]\<rparr>)"

text \<open>
  Modelled from the spec: the overrides of \<open>stop\<close> (AudioCue.cpp, GroupCue.cpp) are not
  among the sources. "\<open>stop(fadeTime)\<close>: valid from any non-terminal state; must
  deterministically cancel any pending pre-wait/post-wait delay and land the cue in
  \<open>Stopped\<close>, regardless of how much of the fade actually completed"; \<open>Broken\<close> is
  "terminal until explicitly revalidated".
\<close>

definition Cue_stop_spec :: "QDateTime \<Rightarrow> real \<Rightarrow> CueS \<Rightarrow> CueS" where
  "Cue_stop_spec now fadeTime = (\<lambda>(c, out).
     if m_status c = Broken then (c, out)
     else setStatus now Stopped
            (c\<lparr>m_preWaitTimer := Inactive, m_postWaitTimer := Inactive,
               m_inPreWait := False, m_inPostWait := False\<rparr>, out))"

subsection \<open>Failures, and the lock on the cue list\<close>

text \<open>
  An operation that does not return ends in one of two ways. The thread blocks for ever
  on a lock that it holds itself. Or a \<open>QList\<close> is accessed at an index outside the range
  that Qt asserts (\<open>Q_ASSERT_X(..., "index out of range")\<close>): a debug build aborts there,
  and in a release build the access is undefined.
\<close>

datatype error = Deadlock | Index_out_of_range

definition and_then :: "error + 'a \<Rightarrow> ('a \<Rightarrow> error + 'b) \<Rightarrow> error + 'b" where
  "and_then r f = (case r of Inl e \<Rightarrow> Inl e | Inr x \<Rightarrow> f x)"

text \<open>
  \<open>cueListLock_\<close> is a \<open>QReadWriteLock\<close> constructed without an argument, so it is not
  recursive. To the thread that runs an operation it is free, held by that thread for
  reading, or held by it for writing. \<open>lockForRead\<close> waits while the lock is held for
  writing and \<open>lockForWrite\<close> while it is held at all; when the holder is the calling
  thread itself the wait never ends. A \<open>QReadLocker\<close> or \<open>QWriteLocker\<close> gives the lock
  back at the end of its scope, so a call that returns leaves the lock as it found it:
  the state of the lock is passed down to the calls, never returned. It is a parameter
  of the operations that take the lock for writing and of what they call while they
  hold it. The other operations take the lock for reading at most, and are modelled as
  they run when the lock is free.

  The mutexes \<open>selectionMutex_\<close> and \<open>playheadMutex_\<close> are never taken by an operation
  below while it holds the same mutex, and are left out.
\<close>

datatype Lock = Unlocked | Locked_for_read | Locked_for_write

definition lockForRead :: "Lock \<Rightarrow> error + Lock" where
  "lockForRead l = (if l = Locked_for_write then Inl Deadlock else Inr Locked_for_read)"

definition lockForWrite :: "Lock \<Rightarrow> error + Lock" where
  "lockForWrite l = (if l = Unlocked then Inr Locked_for_write else Inl Deadlock)"

text \<open>
  The call, by a thread that holds the lock as \<open>l\<close>, of a member function that opens with
  \<open>QReadLocker locker(&cueListLock_)\<close> and then computes \<open>x\<close>: \<open>getCue\<close>,
  \<open>getNextCueNumber\<close>, \<open>findNextExecutableCue\<close>. The definitions of these three below
  are what they compute once they have the lock.
\<close>

definition read_locked :: "Lock \<Rightarrow> 'a \<Rightarrow> error + 'a" where
  "read_locked l x = and_then (lockForRead l) (\<lambda>held. Inr x)"

subsection \<open>Lookup (CueManager.cpp)\<close>

fun findCueIndex_loop :: "(addr \<Rightarrow> Cue) \<Rightarrow> string \<Rightarrow> addr list \<Rightarrow> int \<Rightarrow> int" where
  "findCueIndex_loop h cueId [] i = - 1"
| "findCueIndex_loop h cueId (a # as) i =
     (if m_id (h a) = cueId then i else findCueIndex_loop h cueId as (i + 1))"

definition findCueIndex :: "CueManager \<Rightarrow> string \<Rightarrow> int" where
  "findCueIndex m cueId = findCueIndex_loop (heap m) cueId (m_cues m) 0"

text \<open>\<open>getCue\<close> returns the first cue of the list with the id, or \<open>nullptr\<close>: \<open>None\<close>.\<close>

definition getCue :: "CueManager \<Rightarrow> string \<Rightarrow> addr option" where
  "getCue m cueId = find (\<lambda>a. m_id (heap m a) = cueId) (m_cues m)"

subsection \<open>Transport: stop and panic\<close>

fun stop_loop :: "(real \<Rightarrow> CueS \<Rightarrow> CueS) \<Rightarrow> addr list \<Rightarrow> CueManager \<Rightarrow> CueManager" where
  "stop_loop cue_stop [] m = m"
| "stop_loop cue_stop (a # as) m = stop_loop cue_stop as (invoke_stop cue_stop 0 a m)"

definition stop :: "(real \<Rightarrow> CueS \<Rightarrow> CueS) \<Rightarrow> CueManager \<Rightarrow> CueManager" where
  "stop cue_stop m =
     emit playbackStateChanged
       (emit allCuesStopped
          ((stop_loop cue_stop (m_activeCues m) m)\<lparr>m_activeCues := [], m_isPaused := False\<rparr>))"

fun panic_loop :: "(real \<Rightarrow> CueS \<Rightarrow> CueS) \<Rightarrow> addr list \<Rightarrow> CueManager \<Rightarrow> CueManager" where
  "panic_loop cue_stop [] m = m"
| "panic_loop cue_stop (a # as) m =
     panic_loop cue_stop as
       (if isExecuting (heap m a) then invoke_stop cue_stop 0 a m else m)"

definition panic :: "(real \<Rightarrow> CueS \<Rightarrow> CueS) \<Rightarrow> CueManager \<Rightarrow> CueManager" where
  "panic cue_stop m =
     emit playbackStateChanged
       (emit allCuesStopped
          ((panic_loop cue_stop (m_cues m) m)\<lparr>m_activeCues := [], m_isPaused := False\<rparr>))"

text \<open>The cues on which an event list records a call of \<open>stop\<close>, with the fade time.\<close>

fun stop_calls :: "Event list \<Rightarrow> (addr \<times> real) list" where
  "stop_calls [] = []"
| "stop_calls (Called_stop a f # es) = (a, f) # stop_calls es"
| "stop_calls (e # es) = stop_calls es"

subsection \<open>Standby\<close>

definition setStandByCue :: "string \<Rightarrow> CueManager \<Rightarrow> CueManager" where
  "setStandByCue cueId m =
     (if m_standByCueId m \<noteq> cueId
      then emit (standByCueChanged cueId) (emit playheadChanged (m\<lparr>m_standByCueId := cueId\<rparr>))
      else m)"

text \<open>\<open>isCueExecutable(cue)\<close> is \<open>cue && cue->canExecute()\<close>; a pointer of the list is not null.\<close>

definition isCueExecutable :: "(addr \<Rightarrow> Cue) \<Rightarrow> addr \<Rightarrow> bool" where
  "isCueExecutable h a = canExecute (h a)"

text \<open>The loop of \<open>findNextExecutableCue\<close> over the cues from \<open>startIndex\<close> on.\<close>

fun findNextExecutableCue_loop :: "(addr \<Rightarrow> Cue) \<Rightarrow> addr list \<Rightarrow> string" where
  "findNextExecutableCue_loop h [] = []"
| "findNextExecutableCue_loop h (a # as) =
     (if isCueExecutable h a then m_id (h a) else findNextExecutableCue_loop h as)"

definition findNextExecutableCue :: "CueManager \<Rightarrow> string \<Rightarrow> string" where
  "findNextExecutableCue m fromCueId =
     (let startIndex = (if fromCueId \<noteq> [] then findCueIndex m fromCueId + 1 else 0)
      in findNextExecutableCue_loop (heap m) (drop (nat startIndex) (m_cues m)))"

definition advanceStandBy :: "CueManager \<Rightarrow> CueManager" where
  "advanceStandBy m =
     (let nextCueId = findNextExecutableCue m (m_standByCueId m)
      in if nextCueId \<noteq> [] then setStandByCue nextCueId m else m)"

text \<open>
  \<open>updateStandByCue\<close>, called by a thread that holds the lock on the cue list as \<open>l\<close>:
  \<open>getCue\<close> and \<open>findNextExecutableCue\<close> each take the lock for reading.
\<close>

definition updateStandByCue :: "Lock \<Rightarrow> CueManager \<Rightarrow> error + CueManager" where
  "updateStandByCue l m =
     and_then (read_locked l (getCue m (m_standByCueId m))) (\<lambda>cue.
       if cue = None
       then and_then (read_locked l (findNextExecutableCue m [])) (\<lambda>nextCueId.
              Inr (setStandByCue nextCueId m))
       else Inr m)"

subsection \<open>Numbering\<close>

text \<open>
  \<open>getNextCueNumber\<close> calls two functions of Qt, taken as parameters: \<open>toDouble\<close> is
  \<open>QString::toDouble(&ok)\<close>, with \<open>None\<close> for \<open>ok = false\<close>, and \<open>number_f0 x\<close> is
  \<open>QString::number(x, 'f', 0)\<close>. The loop keeps \<open>number\<close> when \<open>number > highestNumber\<close>.
\<close>

fun getNextCueNumber_loop ::
  "(string \<Rightarrow> double option) \<Rightarrow> (addr \<Rightarrow> Cue) \<Rightarrow> addr list \<Rightarrow> double \<Rightarrow> double" where
  "getNextCueNumber_loop toDouble h [] highestNumber = highestNumber"
| "getNextCueNumber_loop toDouble h (a # as) highestNumber =
     getNextCueNumber_loop toDouble h as
       (case toDouble (m_number (h a)) of
          Some number \<Rightarrow> if dlt highestNumber number then number else highestNumber
        | None \<Rightarrow> highestNumber)"

definition getNextCueNumber ::
  "(string \<Rightarrow> double option) \<Rightarrow> (double \<Rightarrow> string) \<Rightarrow> CueManager \<Rightarrow> string" where
  "getNextCueNumber toDouble number_f0 m =
     number_f0 (dadd (getNextCueNumber_loop toDouble (heap m) (m_cues m) (Finite 0)) (Finite 1))"

text \<open>
  For the statements about \<open>getNextCueNumber\<close>: the values that \<open>toDouble\<close> returns
  with \<open>ok = true\<close> on the numbers of the cues of the list, and the value of
  \<open>highestNumber\<close> when the loop ends.
\<close>

definition parsed_numbers :: "(string \<Rightarrow> double option) \<Rightarrow> CueManager \<Rightarrow> double set" where
  "parsed_numbers toDouble m = {d. \<exists>a\<in>set (m_cues m). toDouble (m_number (heap m a)) = Some d}"

definition highest_number :: "(string \<Rightarrow> double option) \<Rightarrow> CueManager \<Rightarrow> double" where
  "highest_number toDouble m = getNextCueNumber_loop toDouble (heap m) (m_cues m) (Finite 0)"

text \<open>
  A model of the two Qt functions, to run the examples. \<open>toDouble\<close> reads plain decimal
  notation (an optional sign, digits, and an optional point followed by digits) as the
  \<open>double\<close> nearest to the number written, and the words \<open>inf\<close>, \<open>+inf\<close>, \<open>-inf\<close> and
  \<open>nan\<close>; Qt also accepts an exponent and surrounding white space, which this model
  reports as not parsed. \<open>QString::number(x, 'f', 0)\<close> prints the integer nearest to \<open>x\<close>,
  a tie going away from zero.
\<close>

definition digit_value :: "char \<Rightarrow> nat option" where
  "digit_value c =
     map_of [(CHR ''0'', 0), (CHR ''1'', 1), (CHR ''2'', 2), (CHR ''3'', 3), (CHR ''4'', 4),
             (CHR ''5'', 5), (CHR ''6'', 6), (CHR ''7'', 7), (CHR ''8'', 8), (CHR ''9'', 9)] c"

fun digits_value :: "string \<Rightarrow> nat \<Rightarrow> nat option" where
  "digits_value [] acc = Some acc"
| "digits_value (c # cs) acc =
     (case digit_value c of None \<Rightarrow> None | Some d \<Rightarrow> digits_value cs (10 * acc + d))"

definition unsigned_decimal :: "string \<Rightarrow> real option" where
  "unsigned_decimal s =
     (let ip = takeWhile (\<lambda>c. c \<noteq> CHR ''.'') s;
          rest = dropWhile (\<lambda>c. c \<noteq> CHR ''.'') s;
          fp = (if rest = [] then [] else tl rest)
      in if ip = [] \<and> fp = [] then None
         else (case (digits_value ip 0, digits_value fp 0) of
                 (Some i, Some f) \<Rightarrow> Some (real i + real f / 10 ^ length fp)
               | _ \<Rightarrow> None))"

definition QString_toDouble :: "string \<Rightarrow> double option" where
  "QString_toDouble s =
     (if s = ''inf'' \<or> s = ''+inf'' then Some PlusInfinity
      else if s = ''-inf'' then Some MinusInfinity
      else if s = ''nan'' then Some NaN
      else
        case s of
          [] \<Rightarrow> None
        | c # cs \<Rightarrow>
            if c = CHR ''-'' then map_option (\<lambda>x. round_to_double (- x)) (unsigned_decimal cs)
            else if c = CHR ''+'' then map_option round_to_double (unsigned_decimal cs)
            else map_option round_to_double (unsigned_decimal s))"

function decimal_digits :: "nat \<Rightarrow> string" where
  "decimal_digits n =
     (if n < 10 then [''0123456789'' ! n]
      else decimal_digits (n div 10) @ [''0123456789'' ! (n mod 10)])"
  by pat_completeness auto
termination
  by (relation "measure id") auto

declare decimal_digits.simps [simp del]

definition QString_number_f0 :: "double \<Rightarrow> string" where
  "QString_number_f0 d =
     (case d of
        Finite x \<Rightarrow> (if x < 0 then ''-'' else []) @ decimal_digits (nat \<lfloor>\<bar>x\<bar> + 1 / 2\<rfloor>)
      | PlusInfinity \<Rightarrow> ''inf''
      | MinusInfinity \<Rightarrow> ''-inf''
      | NaN \<Rightarrow> ''nan'')"

subsection \<open>Reordering\<close>

text \<open>
  \<open>QList::removeAt(i)\<close> and \<open>QList::insert(i, x)\<close> on an \<open>int\<close> index. Qt asserts
  \<open>0 \<le> i < size\<close> for the first and \<open>0 \<le> i \<le> size\<close> for the second.
\<close>

definition removeAt :: "int \<Rightarrow> 'a list \<Rightarrow> error + 'a list" where
  "removeAt i xs =
     (if 0 \<le> i \<and> i < int (length xs) then Inr (take (nat i) xs @ drop (Suc (nat i)) xs)
      else Inl Index_out_of_range)"

definition insertAt :: "int \<Rightarrow> 'a \<Rightarrow> 'a list \<Rightarrow> error + 'a list" where
  "insertAt i x xs =
     (if 0 \<le> i \<and> i \<le> int (length xs) then Inr (take (nat i) xs @ x # drop (nat i) xs)
      else Inl Index_out_of_range)"

text \<open>The first loop of \<open>moveCues\<close>: the cues found, each with its index.\<close>

fun moveCues_collect :: "CueManager \<Rightarrow> string list \<Rightarrow> (addr \<times> int) list" where
  "moveCues_collect m [] = []"
| "moveCues_collect m (cueId # cueIds) =
     (let index = findCueIndex m cueId
      in if index \<ge> 0 then (m_cues m ! nat index, index) # moveCues_collect m cueIds
         else moveCues_collect m cueIds)"

text \<open>
  The second loop: \<open>cues_.removeAt(pair.second); movedCues.prepend(pair.first)\<close>, on the
  pair of the cue list and \<open>movedCues\<close>.
\<close>

fun moveCues_remove ::
  "(addr \<times> int) list \<Rightarrow> addr list \<times> addr list \<Rightarrow> error + (addr list \<times> addr list)" where
  "moveCues_remove [] (cs, moved) = Inr (cs, moved)"
| "moveCues_remove ((c, i) # ps) (cs, moved) =
     (case removeAt i cs of
        Inl e \<Rightarrow> Inl e
      | Inr cs' \<Rightarrow> moveCues_remove ps (cs', c # moved))"

fun moveCues_adjust :: "(addr \<times> int) list \<Rightarrow> int \<Rightarrow> int \<Rightarrow> int" where
  "moveCues_adjust [] newIndex adjustedIndex = adjustedIndex"
| "moveCues_adjust (p # ps) newIndex adjustedIndex =
     moveCues_adjust ps newIndex (if snd p < newIndex then adjustedIndex - 1 else adjustedIndex)"

text \<open>\<open>cues_.insert(adjustedIndex + i, movedCues[i])\<close> for \<open>i = 0, 1, ...\<close>.\<close>

fun insert_loop :: "int \<Rightarrow> addr list \<Rightarrow> addr list \<Rightarrow> error + addr list" where
  "insert_loop k [] cs = Inr cs"
| "insert_loop k (c # moved) cs =
     (case insertAt k c cs of
        Inl e \<Rightarrow> Inl e
      | Inr cs' \<Rightarrow> insert_loop (k + 1) moved cs')"

fun emit_cueMoved :: "int \<Rightarrow> addr list \<Rightarrow> CueManager \<Rightarrow> CueManager" where
  "emit_cueMoved adjustedIndex [] m = m"
| "emit_cueMoved adjustedIndex (c # moved) m =
     emit_cueMoved adjustedIndex moved (emit (cueMoved (m_id (heap m c)) (- 1) adjustedIndex) m)"

text \<open>
  \<open>moveCues\<close>, called by a thread that holds the lock as \<open>l\<close>; it opens with a
  \<open>QWriteLocker\<close>. \<open>std::sort\<close> with the comparison \<open>a.second > b.second\<close> sorts descending
  by index; pairs with the same index are the same pair, so their order is immaterial.
\<close>

definition moveCues :: "Lock \<Rightarrow> string list \<Rightarrow> int \<Rightarrow> CueManager \<Rightarrow> error + (bool \<times> CueManager)" where
  "moveCues l cueIds newIndex m =
     and_then (lockForWrite l) (\<lambda>held.
       if cueIds = [] \<or> newIndex < 0 \<or> newIndex > int (length (m_cues m)) then Inr (False, m)
       else
         let cuesToMove = moveCues_collect m cueIds in
         if cuesToMove = [] then Inr (False, m)
         else
           let sorted = sort_key (\<lambda>p. - snd p) cuesToMove in
           and_then (moveCues_remove sorted (m_cues m, [])) (\<lambda>(cs, movedCues).
             let adjustedIndex = moveCues_adjust sorted newIndex newIndex in
             and_then (insert_loop adjustedIndex movedCues cs) (\<lambda>cs'.
               Inr (True,
                    emit_cueMoved adjustedIndex movedCues
                      (markWorkspaceModified (m\<lparr>m_cues := cs'\<rparr>))))))"

text \<open>
  What is read off the outcome of an operation in the examples: the result, and the
  cue list of the manager.
\<close>

definition outcome_cues :: "error + ('a \<times> CueManager) \<Rightarrow> error + ('a \<times> addr list)" where
  "outcome_cues r = map_sum id (apsnd m_cues) r"

subsection \<open>Selection\<close>







text \<open>
  \<open>ensureValidSelection\<close>, called by a thread that holds the lock on the cue list as \<open>l\<close>:
  its loop calls \<open>getCue\<close>, which takes that lock for reading, once for each selected id.
\<close>

fun ensureValidSelection_loop ::
  "Lock \<Rightarrow> CueManager \<Rightarrow> string list \<Rightarrow> string list \<Rightarrow> error + string list" where
  "ensureValidSelection_loop l m [] validSelection = Inr validSelection"
| "ensureValidSelection_loop l m (cueId # cueIds) validSelection =
     (case read_locked l (getCue m cueId) of
        Inl e \<Rightarrow> Inl e
      | Inr cue \<Rightarrow>
          ensureValidSelection_loop l m cueIds
            (if cue \<noteq> None then validSelection @ [cueId] else validSelection))"

definition ensureValidSelection :: "Lock \<Rightarrow> CueManager \<Rightarrow> error + CueManager" where
  "ensureValidSelection l m =
     and_then (ensureValidSelection_loop l m (m_selectedCueIds m) []) (\<lambda>validSelection.
       Inr (if length validSelection \<noteq> length (m_selectedCueIds m)
            then emit selectionChanged (m\<lparr>m_selectedCueIds := validSelection\<rparr>)
            else m))"

text \<open>
  The selection is valid when every selected id is the id of a cue of the list, by the
  test the code itself uses: \<open>getCue\<close> finds it.
\<close>

definition selection_valid :: "CueManager \<Rightarrow> bool" where
  "selection_valid m = (\<forall>cueId\<in>set (m_selectedCueIds m). getCue m cueId \<noteq> None)"

subsection \<open>Adding and removing cues\<close>






text \<open>
  The body of the loop of \<open>removeCues\<close> for one id, on \<open>anyRemoved\<close> and the manager.
\<close>

definition removeCues_step ::
  "(real \<Rightarrow> CueS \<Rightarrow> CueS) \<Rightarrow> string \<Rightarrow> bool \<times> CueManager \<Rightarrow> error + (bool \<times> CueManager)" where
  "removeCues_step cue_stop cueId = (\<lambda>(anyRemoved, m).
     let index = findCueIndex m cueId in
     if index \<ge> 0 then
       let cue = m_cues m ! nat index;
           m1 = (if isExecuting (heap m cue) then invoke_stop cue_stop 0 cue m else m);
           m2 = m1\<lparr>m_selectedCueIds := removeAll cueId (m_selectedCueIds m1)\<rparr>;
           m3 = (if m_standByCueId m2 = cueId then m2\<lparr>m_standByCueId := []\<rparr> else m2);
           m4 = m3\<lparr>m_activeCues := removeAll cue (m_activeCues m3)\<rparr>;
           m5 = m4\<lparr>connections := connections m4 - {cue}\<rparr>
       in and_then (removeAt index (m_cues m5)) (\<lambda>cs.
            let m7 = emit (cueRemoved cueId index) (m5\<lparr>m_cues := cs\<rparr>)
            in Inr (True, m7\<lparr>trace := trace m7 @ [Called_deleteLater cue]\<rparr>))
     else Inr (anyRemoved, m))"

fun removeCues_loop ::
  "(real \<Rightarrow> CueS \<Rightarrow> CueS) \<Rightarrow> string list \<Rightarrow> bool \<times> CueManager \<Rightarrow> error + (bool \<times> CueManager)" where
  "removeCues_loop cue_stop [] s = Inr s"
| "removeCues_loop cue_stop (cueId # cueIds) s =
     (case removeCues_step cue_stop cueId s of
        Inl e \<Rightarrow> Inl e
      | Inr s' \<Rightarrow> removeCues_loop cue_stop cueIds s')"

text \<open>
  \<open>removeCues\<close>, called by a thread that holds the lock as \<open>l\<close>. Its \<open>QWriteLocker\<close> is
  in scope to the end of the function, so \<open>updateStandByCue\<close> and \<open>ensureValidSelection\<close>
  are called with the lock held for writing.
\<close>

definition removeCues ::
  "Lock \<Rightarrow> (real \<Rightarrow> CueS \<Rightarrow> CueS) \<Rightarrow> string list \<Rightarrow> CueManager \<Rightarrow> error + (bool \<times> CueManager)" where
  "removeCues l cue_stop cueIds m =
     and_then (lockForWrite l) (\<lambda>held.
       and_then (removeCues_loop cue_stop cueIds (False, m)) (\<lambda>(anyRemoved, m1).
         if anyRemoved
         then and_then (updateStandByCue held (markWorkspaceModified m1)) (\<lambda>m2.
                and_then (ensureValidSelection held m2) (\<lambda>m3.
                  Inr (True,
                       emit playheadChanged (emit selectionChanged (emit cueCountChanged m3)))))
         else Inr (False, m1)))"

definition removeCue ::
  "Lock \<Rightarrow> (real \<Rightarrow> CueS \<Rightarrow> CueS) \<Rightarrow> string \<Rightarrow> CueManager \<Rightarrow> error + (bool \<times> CueManager)" where
  "removeCue l cue_stop cueId m = removeCues l cue_stop [cueId] m"

subsection \<open>Groups\<close>

text \<open>
  Modelled from the spec: \<open>GroupCue\<close> is not among the sources. A \<open>GroupCue\<close> is the cue
  of kind \<open>Group\<close> ("a CueEntity specialization that owns an ordered child list"), so
  \<open>qobject_cast<GroupCue*>\<close> succeeds on the cues of type \<open>Group\<close>.
\<close>

definition is_GroupCue :: "Cue \<Rightarrow> bool" where
  "is_GroupCue c = (m_type c = Group)"

text \<open>
  Modelled from the spec: \<open>GroupCue::addChildCue\<close> is not among the sources; it appends
  to the child list ("Owns an ordered child list. \<open>addChildCue\<close>/removal re-parents a
  cue atomically").
\<close>

definition addChildCue :: "addr \<Rightarrow> CueS \<Rightarrow> CueS" where
  "addChildCue child = (\<lambda>(c, out). (c\<lparr>m_children := m_children c @ [child]\<rparr>, out))"

text \<open>
  The first loop of \<open>createGroupFromCues\<close>, on \<open>firstIndex\<close> and \<open>cuesToGroup\<close>, run by a
  thread that holds the lock as \<open>l\<close>: \<open>getCue\<close> takes the lock for reading.
\<close>

fun createGroup_collect ::
  "Lock \<Rightarrow> CueManager \<Rightarrow> string list \<Rightarrow> int \<times> addr list \<Rightarrow> error + (int \<times> addr list)" where
  "createGroup_collect l m [] s = Inr s"
| "createGroup_collect l m (cueId # cueIds) (firstIndex, cuesToGroup) =
     (case read_locked l (getCue m cueId) of
        Inl e \<Rightarrow> Inl e
      | Inr None \<Rightarrow> createGroup_collect l m cueIds (firstIndex, cuesToGroup)
      | Inr (Some cue) \<Rightarrow>
          let index = findCueIndex m cueId
          in createGroup_collect l m cueIds
               (if firstIndex < 0 \<or> index < firstIndex then index else firstIndex,
                cuesToGroup @ [cue]))"

text \<open>
  The second loop, on \<open>firstIndex\<close> and the manager: the cue is looked up by its id in
  the list as it is now, removed, and added to the group at the address \<open>g\<close>.
\<close>

fun createGroup_move ::
  "addr \<Rightarrow> addr list \<Rightarrow> int \<times> CueManager \<Rightarrow> error + (int \<times> CueManager)" where
  "createGroup_move g [] s = Inr s"
| "createGroup_move g (cue # cuesToGroup) (firstIndex, m) =
     (let index = findCueIndex m (m_id (heap m cue))
      in if index \<ge> 0
         then (case removeAt index (m_cues m) of
                 Inl e \<Rightarrow> Inl e
               | Inr cs \<Rightarrow>
                   createGroup_move g cuesToGroup
                     (if index < firstIndex then firstIndex - 1 else firstIndex,
                      m\<lparr>m_cues := cs,
                        heap := (heap m)(g := fst (addChildCue cue (heap m g, [])))\<rparr>))
         else createGroup_move g cuesToGroup (firstIndex, m))"

text \<open>
  \<open>createGroupFromCues\<close>, called by a thread that holds the lock as \<open>l\<close>; after the test
  for an empty id list it takes the lock for writing. The group object is allocated at
  the address \<open>g\<close> with the id \<open>uuid\<close> at time \<open>now\<close>, and is wired to the slots only
  after the cues are moved. The result is the id of the group, empty on failure.
\<close>

definition createGroupFromCues ::
  "Lock \<Rightarrow> (string \<Rightarrow> double option) \<Rightarrow> (double \<Rightarrow> string) \<Rightarrow> addr \<Rightarrow> string \<Rightarrow> QDateTime \<Rightarrow>
   string list \<Rightarrow> CueManager \<Rightarrow> error + (string \<times> CueManager)" where
  "createGroupFromCues l toDouble number_f0 g uuid now cueIds m =
     (if cueIds = [] then Inr ([], m)
      else
        and_then (lockForWrite l) (\<lambda>held.
        and_then (createGroup_collect held m cueIds (- 1, [])) (\<lambda>(firstIndex, cuesToGroup).
          if cuesToGroup = [] \<or> firstIndex < 0 then Inr ([], m)
          else
            and_then (read_locked held (getNextCueNumber toDouble number_f0 m)) (\<lambda>number.
              let grp = fst (setName now ''Group''
                              (setNumber now number (new_Cue Group uuid now, [])))
              in
              and_then (createGroup_move g cuesToGroup
                          (firstIndex, m\<lparr>heap := (heap m)(g := grp)\<rparr>)) (\<lambda>(firstIndex', m1).
              and_then (insertAt firstIndex' g (m_cues m1)) (\<lambda>cs.
                let m2 = m1\<lparr>m_cues := cs, connections := insert g (connections m1)\<rparr>;
                    groupId = m_id (heap m2 g);
                    m3 = markWorkspaceModified
                           (m2\<lparr>m_groupExpansionState :=
                                 (m_groupExpansionState m2)(groupId \<mapsto> True)\<rparr>)
                in Inr (groupId,
                        emit cueCountChanged
                          (emit (cueAdded g firstIndex') (emit (groupCreated groupId) m3)))))))))"

fun emit_cueAdded :: "int \<Rightarrow> addr list \<Rightarrow> CueManager \<Rightarrow> CueManager" where
  "emit_cueAdded k [] m = m"
| "emit_cueAdded k (c # children) m = emit_cueAdded (k + 1) children (emit (cueAdded c k) m)"

text \<open>
  \<open>ungroupCues\<close>, called by a thread that holds the lock as \<open>l\<close>: \<open>getCue\<close> takes the
  lock for reading and gives it back, and only then the \<open>QWriteLocker\<close> is constructed.
\<close>

definition ungroupCues :: "Lock \<Rightarrow> string \<Rightarrow> CueManager \<Rightarrow> error + (bool \<times> CueManager)" where
  "ungroupCues l groupId m =
     and_then (read_locked l (getCue m groupId)) (\<lambda>cue.
       case cue of
         None \<Rightarrow> Inr (False, m)
       | Some grp \<Rightarrow>
           if \<not> is_GroupCue (heap m grp) then Inr (False, m)
           else
             and_then (lockForWrite l) (\<lambda>held.
               let groupIndex = findCueIndex m groupId in
               if groupIndex < 0 then Inr (False, m)
               else
                 let children = m_children (heap m grp) in
                 and_then (removeAt groupIndex (m_cues m)) (\<lambda>cs.
                 and_then (insert_loop groupIndex children cs) (\<lambda>cs'.
                   let m1 = m\<lparr>m_cues := cs',
                              connections := connections m - {grp},
                              m_groupExpansionState := (m_groupExpansionState m)(groupId := None)\<rparr>;
                       m2 = markWorkspaceModified m1;
                       m3 = emit cueCountChanged
                              (emit_cueAdded groupIndex children
                                 (emit (cueRemoved groupId groupIndex)
                                    (emit (groupRemoved groupId) m2)))
                   in Inr (True, m3\<lparr>trace := trace m3 @ [Called_deleteLater grp]\<rparr>)))))"

subsection \<open>Construction, and a small workspace\<close>

text \<open>The state the constructor \<open>CueManager::CueManager\<close> sets up, over a store \<open>h\<close>.\<close>

definition new_CueManager :: "(addr \<Rightarrow> Cue) \<Rightarrow> CueManager" where
  "new_CueManager h =
     \<lparr> heap = h, connections = {}, m_cues = [], m_selectedCueIds = [], m_standByCueId = [],
       m_workspacePath = [], m_hasUnsavedChanges = False, m_isPaused = False,
       m_activeCues = [], m_groupExpansionState = Map.empty, m_brokenCueCount = 0,
       m_clipboard = [], m_statsValid = False, trace = [] \<rparr>"

definition cue_with :: "string \<Rightarrow> string \<Rightarrow> CueStatus \<Rightarrow> Cue" where
  "cue_with uuid number status =
     (new_Cue Audio uuid doors_open)\<lparr>m_number := number, m_status := status\<rparr>"

text \<open>Five audio cues \<open>a\<close> to \<open>e\<close> at the addresses 1 to 5.\<close>

definition abcde_heap :: "addr \<Rightarrow> Cue" where
  "abcde_heap =
     (\<lambda>_. cue_with [] [] Stopped)
       (1 := cue_with ''a'' ''1'' Playing, 2 := cue_with ''b'' ''2'' Loaded,
        3 := cue_with ''c'' ''abc'' Loading, 4 := cue_with ''d'' ''4.5'' Stopped,
        5 := cue_with ''e'' ''3'' Armed)"

definition abcde :: CueManager where
  "abcde = (new_CueManager abcde_heap)\<lparr>m_cues := [1, 2, 3, 4, 5], connections := {1, 2, 3, 4, 5}\<rparr>"

text \<open>
  A workspace with a group: the top-level list is \<open>cues\<close>, and the group \<open>g\<close>, at the
  address 6, has the children \<open>children\<close>. \<open>with_group [1, 6, 3, 5] [2, 4]\<close> is the
  list \<open>[a, Group(b, d), c, e]\<close>.
\<close>

definition with_group :: "addr list \<Rightarrow> addr list \<Rightarrow> CueManager" where
  "with_group cues children =
     abcde\<lparr>heap := (heap abcde)
               (6 := (new_Cue Group ''g'' curtain_up)
                       \<lparr>m_number := ''6'', m_name := ''Group'', m_children := children\<rparr>),
           m_cues := cues, connections := {1, 2, 3, 4, 5, 6},
           m_groupExpansionState := [''g'' \<mapsto> True]\<rparr>"

text \<open>The five cues in a running show: \<open>a\<close> and \<open>c\<close> active, \<open>a\<close> and \<open>b\<close> selected, \<open>a\<close> on standby.\<close>

definition abcde_running :: CueManager where
  "abcde_running =
     abcde\<lparr>m_activeCues := [1, 3], m_selectedCueIds := [''a'', ''b''], m_standByCueId := ''a''\<rparr>"

section \<open>Properties of the cue\<close>

text \<open>
  C2: \<open>canExecute()\<close> is true exactly when the status is \<open>Loaded\<close> or \<open>Armed\<close>, and
  \<open>trigger()\<close> on a cue in any other status changes neither the status nor any other
  member of the cue, and emits no signal, whatever the subclass's \<open>execute\<close> does.
\<close>

theorem canExecute_iff_trigger_noop:
  "(canExecute c \<longleftrightarrow> m_status c \<in> {Loaded, Armed}) \<and>
   (m_status c \<notin> {Loaded, Armed} \<longrightarrow> trigger execute now (c, out) = (c, out))"
  by (simp add: canExecute_def trigger_def)

theorem canExecute_iff_trigger_noop_witness:
  "m_status ((new_Cue Audio ''u1'' doors_open)\<lparr>m_status := Playing\<rparr>) \<notin> {Loaded, Armed} \<and>
   \<not> canExecute ((new_Cue Audio ''u1'' doors_open)\<lparr>m_status := Playing\<rparr>) \<and>
   trigger (\<lambda>(c, out). (c\<lparr>m_status := Playing\<rparr>, out @ [executionStarted])) curtain_up
     ((new_Cue Audio ''u1'' doors_open)\<lparr>m_status := Playing\<rparr>, [])
   = ((new_Cue Audio ''u1'' doors_open)\<lparr>m_status := Playing\<rparr>, [])"
  using canExecute_iff_trigger_noop
    [of "(new_Cue Audio ''u1'' doors_open)\<lparr>m_status := Playing\<rparr>"
        "\<lambda>(c, out). (c\<lparr>m_status := Playing\<rparr>, out @ [executionStarted])"
        curtain_up "[]"]
  by (simp add: new_Cue_def)

section \<open>Properties of the manager: transport\<close>

subsection \<open>What a call into a cue leaves alone\<close>

lemma stop_calls_append: "stop_calls (xs @ ys) = stop_calls xs @ stop_calls ys"
  by (induction xs rule: stop_calls.induct) auto

lemma deliver_frame:
  "heap (deliver a m s) = heap m \<and> m_cues (deliver a m s) = m_cues m \<and>
   connections (deliver a m s) = connections m \<and>
   m_selectedCueIds (deliver a m s) = m_selectedCueIds m \<and>
   m_standByCueId (deliver a m s) = m_standByCueId m \<and>
   m_groupExpansionState (deliver a m s) = m_groupExpansionState m \<and>
   m_clipboard (deliver a m s) = m_clipboard m"
  by (cases s) (simp_all add: onCuePropertyChanged_def onCueStatusChanged_def
      onCueExecutionFinished_def emit_def markWorkspaceModified_def)

lemma deliver_trace:
  "\<exists>ev. trace (deliver a m s) = trace m @ ev \<and> stop_calls ev = []"
  by (cases s) (simp_all add: onCuePropertyChanged_def onCueStatusChanged_def
      onCueExecutionFinished_def emit_def markWorkspaceModified_def)

lemma foldl_deliver_frame:
  "heap (foldl (deliver a) m sigs) = heap m \<and> m_cues (foldl (deliver a) m sigs) = m_cues m \<and>
   connections (foldl (deliver a) m sigs) = connections m \<and>
   m_selectedCueIds (foldl (deliver a) m sigs) = m_selectedCueIds m \<and>
   m_standByCueId (foldl (deliver a) m sigs) = m_standByCueId m \<and>
   m_groupExpansionState (foldl (deliver a) m sigs) = m_groupExpansionState m \<and>
   m_clipboard (foldl (deliver a) m sigs) = m_clipboard m"
  by (induction sigs arbitrary: m) (simp_all add: deliver_frame)

lemma foldl_deliver_trace:
  "\<exists>ev. trace (foldl (deliver a) m sigs) = trace m @ ev \<and> stop_calls ev = []"
proof (induction sigs arbitrary: m)
  case Nil
  then show ?case by simp
next
  case (Cons s sigs)
  obtain e1 where e1: "trace (deliver a m s) = trace m @ e1" "stop_calls e1 = []"
    using deliver_trace by blast
  obtain e2 where e2: "trace (foldl (deliver a) (deliver a m s) sigs) = trace (deliver a m s) @ e2"
    "stop_calls e2 = []"
    using Cons.IH by blast
  have "trace (foldl (deliver a) m (s # sigs)) = trace m @ (e1 @ e2)"
    using e1 e2 by simp
  moreover have "stop_calls (e1 @ e2) = []"
    using e1 e2 by (simp add: stop_calls_append)
  ultimately show ?case by blast
qed

lemma invoke_frame:
  "m_cues (invoke f a m) = m_cues m \<and>
   connections (invoke f a m) = connections m \<and>
   m_selectedCueIds (invoke f a m) = m_selectedCueIds m \<and>
   m_standByCueId (invoke f a m) = m_standByCueId m \<and>
   m_groupExpansionState (invoke f a m) = m_groupExpansionState m \<and>
   m_clipboard (invoke f a m) = m_clipboard m"
  by (simp add: invoke_def Let_def foldl_deliver_frame split: prod.splits)

lemma invoke_heap:
  "heap (invoke f a m) = (heap m)(a := fst (f (heap m a, [])))"
  by (simp add: invoke_def Let_def foldl_deliver_frame split: prod.splits)

lemma invoke_trace:
  "\<exists>ev. trace (invoke f a m) = trace m @ ev \<and> stop_calls ev = []"
proof (cases "f (heap m a, [])")
  case (Pair c' sigs)
  obtain ev where "trace (foldl (deliver a) (m\<lparr>heap := (heap m)(a := c')\<rparr>) sigs)
      = trace (m\<lparr>heap := (heap m)(a := c')\<rparr>) @ ev" "stop_calls ev = []"
    using foldl_deliver_trace by blast
  then show ?thesis
    using Pair by (cases "a \<in> connections m") (auto simp: invoke_def Let_def)
qed

lemma invoke_stop_frame:
  "m_cues (invoke_stop cs f a m) = m_cues m \<and>
   connections (invoke_stop cs f a m) = connections m \<and>
   m_selectedCueIds (invoke_stop cs f a m) = m_selectedCueIds m \<and>
   m_standByCueId (invoke_stop cs f a m) = m_standByCueId m \<and>
   m_groupExpansionState (invoke_stop cs f a m) = m_groupExpansionState m \<and>
   m_clipboard (invoke_stop cs f a m) = m_clipboard m"
  by (simp add: invoke_stop_def invoke_frame)

lemma invoke_stop_heap:
  "heap (invoke_stop cs f a m) = (heap m)(a := fst (cs f (heap m a, [])))"
  by (simp add: invoke_stop_def invoke_heap)

lemma invoke_stop_trace:
  "\<exists>ev. trace (invoke_stop cs f a m) = trace m @ ev \<and> stop_calls ev = [(a, f)]"
proof -
  obtain ev where "trace (invoke_stop cs f a m) = (trace m @ [Called_stop a f]) @ ev"
    "stop_calls ev = []"
    using invoke_trace [of "cs f" a "m\<lparr>trace := trace m @ [Called_stop a f]\<rparr>"]
    by (auto simp: invoke_stop_def)
  then have "trace (invoke_stop cs f a m) = trace m @ (Called_stop a f # ev)"
    "stop_calls (Called_stop a f # ev) = [(a, f)]"
    by simp_all
  then show ?thesis by blast
qed

lemma stop_loop_frame:
  "m_cues (stop_loop cs xs m) = m_cues m \<and>
   m_selectedCueIds (stop_loop cs xs m) = m_selectedCueIds m \<and>
   m_standByCueId (stop_loop cs xs m) = m_standByCueId m \<and>
   m_groupExpansionState (stop_loop cs xs m) = m_groupExpansionState m \<and>
   m_clipboard (stop_loop cs xs m) = m_clipboard m"
  by (induction xs arbitrary: m) (simp_all add: invoke_stop_frame)

lemma stop_loop_heap:
  "a \<notin> set xs \<Longrightarrow> heap (stop_loop cs xs m) a = heap m a"
  by (induction xs arbitrary: m) (simp_all add: invoke_stop_heap)

lemma stop_loop_trace:
  "\<exists>ev. trace (stop_loop cs xs m) = trace m @ ev \<and> stop_calls ev = map (\<lambda>a. (a, 0)) xs"
proof (induction xs arbitrary: m)
  case Nil
  then show ?case by simp
next
  case (Cons x xs)
  obtain e1 where e1: "trace (invoke_stop cs 0 x m) = trace m @ e1" "stop_calls e1 = [(x, 0)]"
    using invoke_stop_trace by blast
  obtain e2 where e2: "trace (stop_loop cs xs (invoke_stop cs 0 x m)) = trace (invoke_stop cs 0 x m) @ e2"
    "stop_calls e2 = map (\<lambda>a. (a, 0)) xs"
    using Cons.IH by blast
  have "trace (stop_loop cs (x # xs) m) = trace m @ (e1 @ e2)"
    using e1 e2 by simp
  moreover have "stop_calls (e1 @ e2) = map (\<lambda>a. (a, 0)) (x # xs)"
    using e1 e2 by (simp add: stop_calls_append)
  ultimately show ?case by blast
qed

lemma panic_loop_fields:
  "m_cues (panic_loop cs xs m) = m_cues m"
  by (induction xs arbitrary: m) (simp_all add: invoke_stop_frame)

lemma panic_loop_trace:
  "\<exists>ev. trace (panic_loop cs xs m) = trace m @ ev \<and>
        set (stop_calls ev) = (\<lambda>a. (a, 0)) ` {a \<in> set xs. isExecuting (heap m a)}"
proof (induction xs arbitrary: m)
  case Nil
  then show ?case by simp
next
  case (Cons x xs)
  show ?case
  proof (cases "isExecuting (heap m x)")
    case False
    obtain ev where "trace (panic_loop cs xs m) = trace m @ ev"
      "set (stop_calls ev) = (\<lambda>a. (a, 0)) ` {a \<in> set xs. isExecuting (heap m a)}"
      using Cons.IH by blast
    moreover have "{a \<in> set (x # xs). isExecuting (heap m a)} = {a \<in> set xs. isExecuting (heap m a)}"
      using False by auto
    ultimately show ?thesis using False by auto
  next
    case True
    let ?m1 = "invoke_stop cs 0 x m"
    obtain e1 where e1: "trace ?m1 = trace m @ e1" "stop_calls e1 = [(x, 0)]"
      using invoke_stop_trace by blast
    obtain e2 where e2: "trace (panic_loop cs xs ?m1) = trace ?m1 @ e2"
      "set (stop_calls e2) = (\<lambda>a. (a, 0)) ` {a \<in> set xs. isExecuting (heap ?m1 a)}"
      using Cons.IH by blast
    have h: "\<And>a. a \<noteq> x \<Longrightarrow> heap ?m1 a = heap m a"
      by (simp add: invoke_stop_heap)
    have "trace (panic_loop cs (x # xs) m) = trace m @ (e1 @ e2)"
      using True e1 e2 by simp
    have eq: "{a \<in> set (x # xs). isExecuting (heap m a)}
        = insert x {a \<in> set xs. isExecuting (heap ?m1 a)}"
    proof (rule set_eqI)
      fix a
      show "a \<in> {a \<in> set (x # xs). isExecuting (heap m a)}
          \<longleftrightarrow> a \<in> insert x {a \<in> set xs. isExecuting (heap ?m1 a)}"
        using True h [of a] by (cases "a = x") auto
    qed
    have "set (stop_calls (e1 @ e2)) =
        (\<lambda>a. (a, 0)) ` {a \<in> set (x # xs). isExecuting (heap m a)}"
      unfolding eq using e1 e2 by (simp add: stop_calls_append)
    then show ?thesis
      using \<open>trace (panic_loop cs (x # xs) m) = trace m @ (e1 @ e2)\<close> by blast
  qed
qed

subsection \<open>panic\<close>

text \<open>
  C1: for every cue list, every store and every content of the active-cue list,
  \<open>panic()\<close> calls \<open>stop\<close> with fade time zero on exactly the cues of the top-level list
  whose \<open>isExecuting()\<close> is true, and afterwards the active-cue list is empty and the
  paused flag is false. The calls are those recorded after the events of the initial state.
\<close>

theorem panic_stops_executing:
  "set (stop_calls (drop (length (trace m)) (trace (panic cue_stop m))))
     = (\<lambda>a. (a, 0)) ` {a \<in> set (m_cues m). isExecuting (heap m a)} \<and>
   m_activeCues (panic cue_stop m) = [] \<and> m_isPaused (panic cue_stop m) = False"
proof -
  obtain ev where ev: "trace (panic_loop cue_stop (m_cues m) m) = trace m @ ev"
    "set (stop_calls ev) = (\<lambda>a. (a, 0)) ` {a \<in> set (m_cues m). isExecuting (heap m a)}"
    using panic_loop_trace by blast
  have "drop (length (trace m)) (trace (panic cue_stop m))
      = ev @ [Emitted allCuesStopped, Emitted playbackStateChanged]"
    using ev by (simp add: panic_def emit_def)
  then show ?thesis
    using ev by (simp add: panic_def emit_def stop_calls_append)
qed

text \<open>
  On the five cues, with \<open>a\<close> playing and \<open>c\<close> loading, an active-cue list that holds
  only \<open>b\<close>, and the paused flag set: the two executing cues are stopped.
\<close>

theorem panic_stops_executing_witness:
  "set (stop_calls (trace (panic (Cue_stop_spec curtain_up)
      (abcde\<lparr>m_activeCues := [2], m_isPaused := True\<rparr>)))) = {(1, 0), (3, 0)} \<and>
   m_activeCues (panic (Cue_stop_spec curtain_up)
      (abcde\<lparr>m_activeCues := [2], m_isPaused := True\<rparr>)) = [] \<and>
   m_isPaused (panic (Cue_stop_spec curtain_up)
      (abcde\<lparr>m_activeCues := [2], m_isPaused := True\<rparr>)) = False"
proof -
  have "{a \<in> set (m_cues (abcde\<lparr>m_activeCues := [2], m_isPaused := True\<rparr>)).
          isExecuting (heap (abcde\<lparr>m_activeCues := [2], m_isPaused := True\<rparr>) a)} = {1, 3}"
    by (auto simp: abcde_def new_CueManager_def abcde_heap_def cue_with_def new_Cue_def
        isExecuting_def)
  moreover have "trace (abcde\<lparr>m_activeCues := [2], m_isPaused := True\<rparr>) = []"
    by (simp add: abcde_def new_CueManager_def)
  ultimately show ?thesis
    using panic_stops_executing
      [of "abcde\<lparr>m_activeCues := [2], m_isPaused := True\<rparr>" "Cue_stop_spec curtain_up"]
    by simp
qed

subsection \<open>stop\<close>

text \<open>
  C10: the manager's \<open>stop()\<close> empties the active-cue list and resets the paused flag; the
  cue list (the cues and their order), the selection, the standby id, the
  group-expansion map and the clipboard are as before, and no cue object outside the
  active-cue list is touched.
\<close>

theorem stop_frame:
  "m_activeCues (stop cue_stop m) = [] \<and> m_isPaused (stop cue_stop m) = False \<and>
   m_cues (stop cue_stop m) = m_cues m \<and>
   m_selectedCueIds (stop cue_stop m) = m_selectedCueIds m \<and>
   m_standByCueId (stop cue_stop m) = m_standByCueId m \<and>
   m_groupExpansionState (stop cue_stop m) = m_groupExpansionState m \<and>
   m_clipboard (stop cue_stop m) = m_clipboard m \<and>
   (\<forall>a. a \<notin> set (m_activeCues m) \<longrightarrow> heap (stop cue_stop m) a = heap m a)"
  by (simp add: stop_def emit_def stop_loop_frame stop_loop_heap)

theorem stop_frame_witness:
  "m_activeCues (stop (Cue_stop_spec curtain_up)
      (abcde\<lparr>m_activeCues := [1, 3], m_selectedCueIds := [''b''], m_standByCueId := ''e''\<rparr>)) = [] \<and>
   m_cues (stop (Cue_stop_spec curtain_up)
      (abcde\<lparr>m_activeCues := [1, 3], m_selectedCueIds := [''b''], m_standByCueId := ''e''\<rparr>))
     = [1, 2, 3, 4, 5] \<and>
   m_selectedCueIds (stop (Cue_stop_spec curtain_up)
      (abcde\<lparr>m_activeCues := [1, 3], m_selectedCueIds := [''b''], m_standByCueId := ''e''\<rparr>))
     = [''b''] \<and>
   m_standByCueId (stop (Cue_stop_spec curtain_up)
      (abcde\<lparr>m_activeCues := [1, 3], m_selectedCueIds := [''b''], m_standByCueId := ''e''\<rparr>))
     = ''e'' \<and>
   2 \<notin> set (m_activeCues
      (abcde\<lparr>m_activeCues := [1, 3], m_selectedCueIds := [''b''], m_standByCueId := ''e''\<rparr>)) \<and>
   heap (stop (Cue_stop_spec curtain_up)
      (abcde\<lparr>m_activeCues := [1, 3], m_selectedCueIds := [''b''], m_standByCueId := ''e''\<rparr>)) 2
     = cue_with ''b'' ''2'' Loaded"
proof -
  have a: "2 \<notin> set (m_activeCues
      (abcde\<lparr>m_activeCues := [1, 3], m_selectedCueIds := [''b''], m_standByCueId := ''e''\<rparr>))"
    by simp
  have "heap (abcde\<lparr>m_activeCues := [1, 3], m_selectedCueIds := [''b''],
      m_standByCueId := ''e''\<rparr>) 2 = cue_with ''b'' ''2'' Loaded"
    by (simp add: abcde_def new_CueManager_def abcde_heap_def)
  moreover have "m_cues (abcde\<lparr>m_activeCues := [1, 3], m_selectedCueIds := [''b''],
      m_standByCueId := ''e''\<rparr>) = [1, 2, 3, 4, 5]"
    by (simp add: abcde_def new_CueManager_def)
  ultimately show ?thesis
    using a stop_frame
      [of "Cue_stop_spec curtain_up"
          "abcde\<lparr>m_activeCues := [1, 3], m_selectedCueIds := [''b''], m_standByCueId := ''e''\<rparr>"]
    by simp
qed

section \<open>Properties of the manager: standby\<close>

lemma findNext_loop_none: "\<forall>a\<in>set xs. \<not> canExecute (h a) \<Longrightarrow> findNextExecutableCue_loop h xs = []"
  by (induction xs) (simp_all add: isCueExecutable_def)

lemma findNext_loop_first:
  "j < length xs \<Longrightarrow> canExecute (h (xs ! j)) \<Longrightarrow> \<forall>k<j. \<not> canExecute (h (xs ! k))
   \<Longrightarrow> findNextExecutableCue_loop h xs = m_id (h (xs ! j))"
proof (induction xs arbitrary: j)
  case Nil
  then show ?case by simp
next
  case (Cons x xs)
  show ?case
  proof (cases j)
    case 0
    then show ?thesis using Cons.prems by (simp add: isCueExecutable_def)
  next
    case (Suc i)
    have "\<not> canExecute (h x)" using Cons.prems(3) Suc by auto
    moreover have "\<forall>k<i. \<not> canExecute (h (xs ! k))"
    proof (intro allI impI)
      fix k assume "k < i"
      then have "Suc k < j" using Suc by simp
      then have "\<not> canExecute (h ((x # xs) ! Suc k))" using Cons.prems(3) by blast
      then show "\<not> canExecute (h (xs ! k))" by simp
    qed
    then have "findNextExecutableCue_loop h xs = m_id (h (xs ! i))"
      using Cons.IH [of i] Cons.prems(1,2) Suc by simp
    ultimately show ?thesis using Suc by (simp add: isCueExecutable_def)
  qed
qed

text \<open>
  C4, as the code has it: \<open>advanceStandBy()\<close> walks forward from the position after the
  current standby cue (from the start of the list when there is no standby id, or when
  no cue has it) to the first cue satisfying \<open>canExecute()\<close> and makes it the standby cue;
  when there is no such cue it changes nothing, and the standby id stays as it was.
\<close>

theorem advanceStandBy_next:
  assumes "start = (if m_standByCueId m = [] then 0 else nat (findCueIndex m (m_standByCueId m) + 1))"
  shows
  "((\<forall>j. start \<le> j \<and> j < length (m_cues m) \<longrightarrow> \<not> canExecute (heap m (m_cues m ! j)))
      \<longrightarrow> advanceStandBy m = m) \<and>
   (start \<le> j \<and> j < length (m_cues m) \<and> canExecute (heap m (m_cues m ! j)) \<and>
    (\<forall>k. start \<le> k \<and> k < j \<longrightarrow> \<not> canExecute (heap m (m_cues m ! k))) \<and>
    m_id (heap m (m_cues m ! j)) \<noteq> []
      \<longrightarrow> m_standByCueId (advanceStandBy m) = m_id (heap m (m_cues m ! j)))"
proof -
  have nxt: "findNextExecutableCue m (m_standByCueId m)
      = findNextExecutableCue_loop (heap m) (drop start (m_cues m))"
    using assms by (simp add: findNextExecutableCue_def)
  have none: "advanceStandBy m = m"
    if h: "\<forall>j. start \<le> j \<and> j < length (m_cues m) \<longrightarrow> \<not> canExecute (heap m (m_cues m ! j))"
  proof -
    have "\<forall>a\<in>set (drop start (m_cues m)). \<not> canExecute (heap m a)"
    proof
      fix a assume "a \<in> set (drop start (m_cues m))"
      then obtain i where i: "i < length (drop start (m_cues m))" "a = drop start (m_cues m) ! i"
        by (auto simp: in_set_conv_nth)
      then have "a = m_cues m ! (start + i)" "start + i < length (m_cues m)" by auto
      then show "\<not> canExecute (heap m a)" using h by simp
    qed
    then have "findNextExecutableCue m (m_standByCueId m) = []"
      using nxt findNext_loop_none by simp
    then show ?thesis by (simp add: advanceStandBy_def)
  qed
  have some: "m_standByCueId (advanceStandBy m) = m_id (heap m (m_cues m ! j))"
    if h: "start \<le> j" "j < length (m_cues m)" "canExecute (heap m (m_cues m ! j))"
      "\<forall>k. start \<le> k \<and> k < j \<longrightarrow> \<not> canExecute (heap m (m_cues m ! k))"
      "m_id (heap m (m_cues m ! j)) \<noteq> []"
  proof -
    let ?xs = "drop start (m_cues m)"
    have 1: "j - start < length ?xs" using h(1,2) by simp
    have 2: "?xs ! (j - start) = m_cues m ! j" using h(1,2) by simp
    have 3: "\<forall>k<j - start. \<not> canExecute (heap m (?xs ! k))"
    proof (intro allI impI)
      fix k assume k: "k < j - start"
      then have "?xs ! k = m_cues m ! (start + k)" using h(2) by simp
      moreover have "\<not> canExecute (heap m (m_cues m ! (start + k)))"
        using h(4) k by simp
      ultimately show "\<not> canExecute (heap m (?xs ! k))" by simp
    qed
    have "findNextExecutableCue_loop (heap m) ?xs = m_id (heap m (?xs ! (j - start)))"
      using findNext_loop_first [OF 1 _ 3] h(3) 2 by simp
    then have "findNextExecutableCue m (m_standByCueId m) = m_id (heap m (m_cues m ! j))"
      using nxt 2 by simp
    then show ?thesis using h(5)
      by (simp add: advanceStandBy_def setStandByCue_def emit_def Let_def)
  qed
  show ?thesis using none some by blast
qed

text \<open>
  With \<open>e\<close>, the last cue, on standby no following cue is found, and the standby id is
  still \<open>e\<close> afterwards: it is not cleared.
\<close>

theorem advanceStandBy_clears_counterexample:
  "findNextExecutableCue (abcde\<lparr>m_standByCueId := ''e''\<rparr>) ''e'' = [] \<and>
   m_standByCueId (advanceStandBy (abcde\<lparr>m_standByCueId := ''e''\<rparr>)) = ''e''"
  by (simp add: advanceStandBy_def findNextExecutableCue_def findCueIndex_def abcde_def
      new_CueManager_def abcde_heap_def cue_with_def new_Cue_def)


theorem advanceStandBy_next_witness:
  "advanceStandBy (abcde\<lparr>m_standByCueId := ''e''\<rparr>) = abcde\<lparr>m_standByCueId := ''e''\<rparr> \<and>
   m_standByCueId (advanceStandBy (abcde\<lparr>m_standByCueId := ''b''\<rparr>)) = ''e''"
proof -
  let ?m = "abcde\<lparr>m_standByCueId := ''e''\<rparr>"
  let ?n = "abcde\<lparr>m_standByCueId := ''b''\<rparr>"
  have sm: "5 = (if m_standByCueId ?m = [] then 0 else nat (findCueIndex ?m (m_standByCueId ?m) + 1))"
    by (simp add: findCueIndex_def abcde_def new_CueManager_def abcde_heap_def cue_with_def
        new_Cue_def)
  have sn: "2 = (if m_standByCueId ?n = [] then 0 else nat (findCueIndex ?n (m_standByCueId ?n) + 1))"
    by (simp add: findCueIndex_def abcde_def new_CueManager_def abcde_heap_def cue_with_def
        new_Cue_def)
  have "length (m_cues ?m) = 5"
    by (simp add: abcde_def new_CueManager_def)
  then have hm: "\<forall>j. 5 \<le> j \<and> j < length (m_cues ?m) \<longrightarrow> \<not> canExecute (heap ?m (m_cues ?m ! j))"
    by auto
  have between: "\<forall>k. 2 \<le> k \<and> k < 4 \<longrightarrow> \<not> canExecute (heap ?n (m_cues ?n ! k))"
  proof (intro allI impI)
    fix k :: nat
    assume "2 \<le> k \<and> k < 4"
    then have "k = 2 \<or> k = 3" by arith
    then show "\<not> canExecute (heap ?n (m_cues ?n ! k))"
      by (auto simp: abcde_def new_CueManager_def abcde_heap_def cue_with_def new_Cue_def
          canExecute_def)
  qed
  have hn: "2 \<le> (4::nat) \<and> 4 < length (m_cues ?n) \<and> canExecute (heap ?n (m_cues ?n ! 4)) \<and>
      m_id (heap ?n (m_cues ?n ! 4)) \<noteq> []"
    by (simp add: abcde_def new_CueManager_def abcde_heap_def cue_with_def new_Cue_def
        canExecute_def)
  have idn: "m_id (heap ?n (m_cues ?n ! 4)) = ''e''"
    by (simp add: abcde_def new_CueManager_def abcde_heap_def cue_with_def new_Cue_def)
  show ?thesis
    using advanceStandBy_next [OF sm, of 0] advanceStandBy_next [OF sn, of 4] hm hn between idn
    by simp
qed

section \<open>Properties of the numbers\<close>

lemma pow2_nonneg: "0 \<le> k \<Longrightarrow> pow2 k = 2 ^ nat k"
  by (simp add: pow2_def)

lemma pow2_Suc: "0 \<le> k \<Longrightarrow> pow2 (k + 1) = 2 * pow2 k"
  by (simp add: pow2_def nat_add_distrib)

lemma binade_up_bounds:
  "1 \<le> x \<Longrightarrow> e0 \<le> binade_up e0 x \<and> pow2 (binade_up e0 x - e0) \<le> x"
proof (induction e0 x rule: binade_up.induct)
  case (1 e x)
  show ?case
  proof (cases "x < 2 \<or> 1024 \<le> e")
    case True
    then show ?thesis using "1.prems" by (simp add: binade_up.simps [of e x] pow2_def)
  next
    case False
    then have half: "1 \<le> x / 2" by simp
    have ih: "e + 1 \<le> binade_up (e + 1) (x / 2) \<and>
        pow2 (binade_up (e + 1) (x / 2) - (e + 1)) \<le> x / 2"
      using "1.IH" [OF False half] .
    have r: "binade_up e x = binade_up (e + 1) (x / 2)"
      using False by (simp add: binade_up.simps [of e x])
    let ?k = "binade_up (e + 1) (x / 2) - (e + 1)"
    have "0 \<le> ?k" using ih by simp
    then have "pow2 (?k + 1) = 2 * pow2 ?k" by (rule pow2_Suc)
    moreover have "binade_up e x - e = ?k + 1" using r by simp
    ultimately show ?thesis using ih r by simp
  qed
qed

lemma round_half_even_of_int: "round_half_even (of_int k) = k"
  by (simp add: round_half_even_def)

text \<open>Every whole number below \<open>2^53\<close> in absolute value is a \<open>double\<close>.\<close>

lemma round_to_double_of_int:
  assumes "\<bar>n\<bar> < 2 ^ 53"
  shows "round_to_double (of_int n) = Finite (of_int n)"
proof (cases "n = 0")
  case True
  then show ?thesis by (simp add: round_to_double_def)
next
  case False
  let ?x = "of_int n :: real"
  let ?e = "binade ?x"
  have a1: "1 \<le> \<bar>?x\<bar>" using False by (simp flip: of_int_abs)
  have alt: "\<bar>?x\<bar> < 2 ^ 53"
  proof -
    have "(of_int \<bar>n\<bar> :: real) < of_int (2 ^ 53)" using assms by (simp only: of_int_less_iff)
    then show ?thesis by simp
  qed
  have e: "?e = binade_up 0 \<bar>?x\<bar>" using a1 by (simp add: binade_def)
  have b: "0 \<le> ?e" "pow2 ?e \<le> \<bar>?x\<bar>"
    using binade_up_bounds [OF a1, of 0] e by simp_all
  have p: "(2::real) ^ nat ?e < 2 ^ 53"
  proof -
    have "pow2 ?e = 2 ^ nat ?e" using b(1) by (rule pow2_nonneg)
    then show ?thesis using b(2) alt by linarith
  qed
  have "nat ?e < 53"
  proof (rule power_less_imp_less_exp)
    show "(1::real) < 2" by simp
    show "(2::real) ^ nat ?e < 2 ^ 53" by (rule p)
  qed
  then have le: "?e \<le> 52" by simp
  define j where "j = nat (52 - ?e)"
  have q: "pow2 (?e - 52) = 1 / 2 ^ j"
  proof (cases "?e = 52")
    case True
    then show ?thesis by (simp add: pow2_def j_def)
  next
    case False
    then have "?e - 52 < 0" using le by simp
    then show ?thesis by (simp add: pow2_def j_def)
  qed
  have "?x / pow2 (?e - 52) = of_int (n * 2 ^ j)" by (simp add: q)
  then have r: "round_half_even (?x / pow2 (?e - 52)) = n * 2 ^ j"
    by (simp only: round_half_even_of_int)
  have y: "of_int (n * 2 ^ j) * pow2 (?e - 52) = ?x" by (simp add: q)
  have small: "\<not> pow2 1024 \<le> ?x" "\<not> ?x \<le> - pow2 1024"
  proof -
    have "(2::real) ^ 53 < pow2 1024" by (simp add: pow2_def)
    then show "\<not> pow2 1024 \<le> ?x" "\<not> ?x \<le> - pow2 1024" using alt by linarith+
  qed
  have nz: "?x \<noteq> 0" using False by simp
  show ?thesis
    unfolding round_to_double_def Let_def r y using nz small by simp
qed

lemma tolerance_value: "tolerance = Finite (4611686018427388 / 2 ^ 62)"
  by (simp add: tolerance_def round_to_double_def binade_def binade_down.simps pow2_def
      round_half_even_def Let_def)


lemmas double_eval =
  round_to_double_def binade_def binade_up.simps binade_down.simps pow2_def
  round_half_even_def Let_def

section \<open>Properties of the manager: numbering\<close>

lemma dlt_not_trans:
  "b \<noteq> NaN \<Longrightarrow> \<not> dlt a b \<Longrightarrow> \<not> dlt b c \<Longrightarrow> \<not> dlt a c"
  by (cases a; cases b; cases c) auto

lemma dlt_irrefl: "\<not> dlt a a"
  by (cases a) auto

lemma dlt_asym: "dlt a b \<Longrightarrow> \<not> dlt b a"
  by (cases a; cases b) auto

lemma dlt_not_NaN: "dlt a b \<Longrightarrow> a \<noteq> NaN \<and> b \<noteq> NaN"
  by (cases a; cases b) auto

lemma dle_zero: "h \<noteq> NaN \<Longrightarrow> \<not> dlt h (Finite 0) \<Longrightarrow> dle (Finite 0) h"
  by (cases h) (auto simp: dle_def)

lemma getNextCueNumber_loop_max:
  assumes "h0 \<noteq> NaN"
  shows "(getNextCueNumber_loop toDouble hp xs h0 = h0 \<or>
          (\<exists>a\<in>set xs. toDouble (m_number (hp a)) = Some (getNextCueNumber_loop toDouble hp xs h0))) \<and>
         getNextCueNumber_loop toDouble hp xs h0 \<noteq> NaN \<and>
         \<not> dlt (getNextCueNumber_loop toDouble hp xs h0) h0 \<and>
         (\<forall>a\<in>set xs. \<forall>d. toDouble (m_number (hp a)) = Some d
            \<longrightarrow> \<not> dlt (getNextCueNumber_loop toDouble hp xs h0) d)"
  using assms
proof (induction xs arbitrary: h0)
  case Nil
  then show ?case by (simp add: dlt_irrefl)
next
  case (Cons x xs)
  let ?h1 = "case toDouble (m_number (hp x)) of
               Some number \<Rightarrow> if dlt h0 number then number else h0 | None \<Rightarrow> h0"
  let ?h = "getNextCueNumber_loop toDouble hp xs ?h1"
  have step: "getNextCueNumber_loop toDouble hp (x # xs) h0 = ?h" by simp
  have h1: "?h1 \<noteq> NaN" "\<not> dlt ?h1 h0"
    "?h1 = h0 \<or> toDouble (m_number (hp x)) = Some ?h1"
    "\<forall>d. toDouble (m_number (hp x)) = Some d \<longrightarrow> \<not> dlt ?h1 d"
    using Cons.prems
    by (auto simp: dlt_irrefl split: option.splits dest: dlt_not_NaN dlt_asym)
  note ih = Cons.IH [OF h1(1)]
  have a: "?h = h0 \<or> (\<exists>a\<in>set (x # xs). toDouble (m_number (hp a)) = Some ?h)"
    using ih h1(3) by auto
  have b: "?h \<noteq> NaN" using ih by simp
  have ge: "\<not> dlt ?h ?h1" using ih by simp
  have c: "\<not> dlt ?h h0" using dlt_not_trans [OF h1(1) ge h1(2)] .
  have d: "\<not> dlt ?h d" if "a \<in> set (x # xs)" "toDouble (m_number (hp a)) = Some d" for a d
  proof (cases "a = x")
    case True
    then have "\<not> dlt ?h1 d" using h1(4) that(2) by simp
    then show ?thesis using dlt_not_trans [OF h1(1) ge] by simp
  next
    case False
    then have "a \<in> set xs" using that(1) by simp
    then show ?thesis using ih that(2) by blast
  qed
  show ?case unfolding step using a b c d by blast
qed

lemmas numbering_defs =
  getNextCueNumber_def highest_number_def parsed_numbers_def QString_toDouble_def
  unsigned_decimal_def digit_value_def QString_number_f0_def decimal_digits.simps
  abcde_def new_CueManager_def abcde_heap_def cue_with_def new_Cue_def

text \<open>
  C7, as the code has it. \<open>getNextCueNumber()\<close> prints, with \<open>QString::number(x, 'f', 0)\<close>,
  the sum \<open>highestNumber + 1.0\<close>. \<open>highestNumber\<close> is \<open>0.0\<close> or one of the values parsed
  from the numbers of the cues; it is not NaN, not below \<open>0.0\<close>, and no parsed value is
  greater: it is the greatest of \<open>0.0\<close> and the parsed values, cues whose number does
  not parse playing no part. The sum is a sum of \<open>double\<close>s: exact when
  \<open>highestNumber\<close> is whole and the sum is below \<open>2^53\<close>, rounded otherwise. When no
  number parses the result is the print of \<open>1.0\<close>; on the numbers \<open>1\<close>, \<open>2\<close>, \<open>abc\<close>,
  \<open>4.5\<close> it is \<open>6\<close>.
\<close>

theorem getNextCueNumber_max:
  "getNextCueNumber toDouble number_f0 m
     = number_f0 (dadd (highest_number toDouble m) (Finite 1)) \<and>
   (highest_number toDouble m = Finite 0 \<or>
    highest_number toDouble m \<in> parsed_numbers toDouble m) \<and>
   highest_number toDouble m \<noteq> NaN \<and>
   dle (Finite 0) (highest_number toDouble m) \<and>
   (\<forall>d\<in>parsed_numbers toDouble m. \<not> dlt (highest_number toDouble m) d) \<and>
   (parsed_numbers toDouble m = {}
      \<longrightarrow> getNextCueNumber toDouble number_f0 m = number_f0 (Finite 1)) \<and>
   (highest_number toDouble m = Finite (of_int n) \<and> n + 1 < 2 ^ 53
      \<longrightarrow> dadd (highest_number toDouble m) (Finite 1) = Finite (of_int (n + 1))) \<and>
   getNextCueNumber QString_toDouble QString_number_f0 (abcde\<lparr>m_cues := [1, 2, 3, 4]\<rparr>) = ''6''"
proof -
  let ?h = "highest_number toDouble m"
  note L = getNextCueNumber_loop_max [of "Finite 0" toDouble "heap m" "m_cues m", simplified,
      folded highest_number_def]
  have 1: "getNextCueNumber toDouble number_f0 m = number_f0 (dadd ?h (Finite 1))"
    by (simp add: getNextCueNumber_def highest_number_def)
  have 2: "?h = Finite 0 \<or> ?h \<in> parsed_numbers toDouble m"
    using L by (auto simp: parsed_numbers_def)
  have 3: "?h \<noteq> NaN" using L by simp
  have 4: "dle (Finite 0) ?h" using L dle_zero by blast
  have 5: "\<forall>d\<in>parsed_numbers toDouble m. \<not> dlt ?h d"
    using L by (auto simp: parsed_numbers_def)
  have one: "dadd (Finite 0) (Finite 1) = Finite 1"
    using round_to_double_of_int [of 1] by simp
  have 6: "getNextCueNumber toDouble number_f0 m = number_f0 (Finite 1)"
    if "parsed_numbers toDouble m = {}"
    using 1 2 that one by auto
  have 7: "dadd ?h (Finite 1) = Finite (of_int (n + 1))"
    if "?h = Finite (of_int n)" "n + 1 < 2 ^ 53"
  proof -
    have "0 \<le> n" using 4 that(1) by (auto simp: dle_def)
    then have "\<bar>n + 1\<bar> < 2 ^ 53" using that(2) by simp
    then have "round_to_double (of_int (n + 1)) = Finite (of_int (n + 1))"
      by (rule round_to_double_of_int)
    then show ?thesis using that(1) by (simp add: add.commute)
  qed
  have 8: "getNextCueNumber QString_toDouble QString_number_f0 (abcde\<lparr>m_cues := [1, 2, 3, 4]\<rparr>)
      = ''6''"
    by (simp add: numbering_defs double_eval)
  show ?thesis using 1 2 3 4 5 6 7 8 by blast
qed

text \<open>
  Cues numbered \<open>1\<close> and \<open>2\<close>: the highest number is \<open>2\<close>, the greater of the parsed
  values, and the next number is \<open>3\<close>. A single cue numbered \<open>abc\<close>: nothing parses,
  and the next number is \<open>1\<close>.
\<close>

theorem getNextCueNumber_max_witness:
  "parsed_numbers QString_toDouble (abcde\<lparr>m_cues := [1, 2]\<rparr>) = {Finite 1, Finite 2} \<and>
   highest_number QString_toDouble (abcde\<lparr>m_cues := [1, 2]\<rparr>) = Finite (of_int 2) \<and>
   (2::int) + 1 < 2 ^ 53 \<and>
   \<not> dlt (Finite 2) (Finite 1) \<and>
   dadd (highest_number QString_toDouble (abcde\<lparr>m_cues := [1, 2]\<rparr>)) (Finite 1) = Finite 3 \<and>
   getNextCueNumber QString_toDouble QString_number_f0 (abcde\<lparr>m_cues := [1, 2]\<rparr>) = ''3'' \<and>
   parsed_numbers QString_toDouble (abcde\<lparr>m_cues := [3]\<rparr>) = {} \<and>
   getNextCueNumber QString_toDouble QString_number_f0 (abcde\<lparr>m_cues := [3]\<rparr>) = ''1''"
proof -
  have p: "parsed_numbers QString_toDouble (abcde\<lparr>m_cues := [1, 2]\<rparr>) = {Finite 1, Finite 2}"
    by (auto simp: numbering_defs double_eval)
  have h: "highest_number QString_toDouble (abcde\<lparr>m_cues := [1, 2]\<rparr>) = Finite (of_int 2)"
    by (simp add: numbering_defs double_eval)
  have e: "parsed_numbers QString_toDouble (abcde\<lparr>m_cues := [3]\<rparr>) = {}"
    by (simp add: numbering_defs double_eval)
  have f: "QString_number_f0 (Finite 3) = ''3''" "QString_number_f0 (Finite 1) = ''1''"
    by (simp_all add: numbering_defs)
  note A = getNextCueNumber_max [of QString_toDouble QString_number_f0
      "abcde\<lparr>m_cues := [1, 2]\<rparr>" 2]
  note B = getNextCueNumber_max [of QString_toDouble QString_number_f0
      "abcde\<lparr>m_cues := [3]\<rparr>" 0]
  have s: "dadd (highest_number QString_toDouble (abcde\<lparr>m_cues := [1, 2]\<rparr>)) (Finite 1) = Finite 3"
    using A h by simp
  have t: "getNextCueNumber QString_toDouble QString_number_f0 (abcde\<lparr>m_cues := [1, 2]\<rparr>) = ''3''"
    using A s f by simp
  have u: "getNextCueNumber QString_toDouble QString_number_f0 (abcde\<lparr>m_cues := [3]\<rparr>) = ''1''"
    using B e f by simp
  show ?thesis using p h s t e u by simp
qed

text \<open>
  A single cue numbered \<open>-3\<close>: the number parses, the maximum parsed value plus one is
  \<open>-2\<close>, and the next number is \<open>1\<close>. A single cue numbered \<open>9007199254740992\<close>, which
  is \<open>2^53\<close>: the next number is that same number, not \<open>9007199254740993\<close>.
\<close>

theorem getNextCueNumber_negative_counterexample:
  "m_cues (abcde\<lparr>heap := (heap abcde)(3 := cue_with ''c'' ''-3'' Loading), m_cues := [3]\<rparr>) = [3] \<and>
   QString_toDouble ''-3'' = Some (Finite (- 3)) \<and>
   QString_number_f0 (Finite (- 3 + 1)) = ''-2'' \<and>
   getNextCueNumber QString_toDouble QString_number_f0
     (abcde\<lparr>heap := (heap abcde)(3 := cue_with ''c'' ''-3'' Loading), m_cues := [3]\<rparr>) = ''1'' \<and>
   QString_toDouble ''9007199254740992'' = Some (Finite (2 ^ 53)) \<and>
   getNextCueNumber QString_toDouble QString_number_f0
     (abcde\<lparr>heap := (heap abcde)(3 := cue_with ''c'' ''9007199254740992'' Loading),
            m_cues := [3]\<rparr>) = ''9007199254740992''"
  by (simp add: numbering_defs double_eval)

section \<open>Properties of the manager: reordering\<close>

subsection \<open>Finding a cue by id\<close>

lemma findCueIndex_loop_notin:
  "cid \<notin> (\<lambda>a. m_id (h a)) ` set xs \<Longrightarrow> findCueIndex_loop h cid xs k = - 1"
  by (induction xs arbitrary: k) auto

lemma findCueIndex_loop_in:
  "cid \<in> (\<lambda>a. m_id (h a)) ` set xs \<Longrightarrow>
   \<exists>i<length xs. findCueIndex_loop h cid xs k = k + int i \<and> m_id (h (xs ! i)) = cid \<and>
       (\<forall>j<i. m_id (h (xs ! j)) \<noteq> cid)"
proof (induction xs arbitrary: k)
  case Nil
  then show ?case by simp
next
  case (Cons x xs)
  show ?case
  proof (cases "m_id (h x) = cid")
    case True
    then show ?thesis by (intro exI [of _ 0]) simp
  next
    case False
    then have "cid \<in> (\<lambda>a. m_id (h a)) ` set xs" using Cons.prems by auto
    then obtain i where i: "i < length xs" "findCueIndex_loop h cid xs (k + 1) = k + 1 + int i"
      "m_id (h (xs ! i)) = cid" "\<forall>j<i. m_id (h (xs ! j)) \<noteq> cid"
      using Cons.IH [of "k + 1"] by blast
    have "\<forall>j<Suc i. m_id (h ((x # xs) ! j)) \<noteq> cid"
      using False i(4) by (auto simp: less_Suc_eq_0_disj)
    then show ?thesis using False i by (intro exI [of _ "Suc i"]) simp
  qed
qed

lemma findCueIndex_absent:
  "cid \<notin> (\<lambda>a. m_id (heap m a)) ` set (m_cues m) \<Longrightarrow> findCueIndex m cid = - 1"
  by (simp add: findCueIndex_def findCueIndex_loop_notin)

lemma findCueIndex_present:
  assumes "cid \<in> (\<lambda>a. m_id (heap m a)) ` set (m_cues m)"
  shows "\<exists>i<length (m_cues m). findCueIndex m cid = int i \<and> m_id (heap m (m_cues m ! i)) = cid \<and>
     (\<forall>j<i. m_id (heap m (m_cues m ! j)) \<noteq> cid)"
  using findCueIndex_loop_in [OF assms, of 0] by (simp add: findCueIndex_def)

lemma findCueIndex_nonneg_iff:
  "0 \<le> findCueIndex m cid \<longleftrightarrow> cid \<in> (\<lambda>a. m_id (heap m a)) ` set (m_cues m)"
proof (cases "cid \<in> (\<lambda>a. m_id (heap m a)) ` set (m_cues m)")
  case True
  then show ?thesis using findCueIndex_present [OF True] by auto
next
  case False
  then show ?thesis using findCueIndex_absent [OF False] by simp
qed


subsection \<open>Lists: removing at an index, inserting a block\<close>

lemma removeAt_in_range:
  "0 \<le> i \<Longrightarrow> nat i < length cs \<Longrightarrow> removeAt i cs = Inr (take (nat i) cs @ drop (Suc (nat i)) cs)"
  by (simp add: removeAt_def)

lemma take_drop_distinct:
  assumes "distinct cs" "n < length cs"
  shows "take n cs @ drop (Suc n) cs = filter (\<lambda>a. a \<noteq> cs ! n) cs"
proof -
  have split: "cs = take n cs @ cs ! n # drop (Suc n) cs"
    using assms(2) by (rule id_take_nth_drop)
  then have d: "distinct (take n cs @ cs ! n # drop (Suc n) cs)"
    using assms(1) by simp
  have 1: "filter (\<lambda>a. a \<noteq> cs ! n) (take n cs) = take n cs"
    using d by (auto simp: filter_id_conv)
  have 2: "filter (\<lambda>a. a \<noteq> cs ! n) (drop (Suc n) cs) = drop (Suc n) cs"
    using d by (auto simp: filter_id_conv)
  have "filter (\<lambda>a. a \<noteq> cs ! n) cs
      = filter (\<lambda>a. a \<noteq> cs ! n) (take n cs @ cs ! n # drop (Suc n) cs)"
    using split by simp
  also have "\<dots> = take n cs @ drop (Suc n) cs"
    using 1 2 by simp
  finally show ?thesis by simp
qed

lemma removeAt_distinct:
  assumes "distinct cs" "0 \<le> i" "nat i < length cs"
  shows "removeAt i cs = Inr (filter (\<lambda>a. a \<noteq> cs ! nat i) cs)"
  using removeAt_in_range [OF assms(2,3)] take_drop_distinct [OF assms(1,3)] by simp


lemma insert_loop_block:
  "0 \<le> k \<Longrightarrow> nat k \<le> length cs \<Longrightarrow>
   insert_loop k moved cs = Inr (take (nat k) cs @ moved @ drop (nat k) cs)"
proof (induction moved arbitrary: k cs)
  case Nil
  then show ?case by simp
next
  case (Cons c moved)
  let ?cs1 = "take (nat k) cs @ c # drop (nat k) cs"
  have ins: "insertAt k c cs = Inr ?cs1"
    using Cons.prems by (simp add: insertAt_def)
  have len: "nat (k + 1) \<le> length ?cs1"
    using Cons.prems by simp
  have k1: "nat (k + 1) = Suc (nat k)" using Cons.prems(1) by simp
  have "insert_loop (k + 1) moved ?cs1
      = Inr (take (nat (k + 1)) ?cs1 @ moved @ drop (nat (k + 1)) ?cs1)"
    using Cons.IH [of "k + 1" ?cs1] Cons.prems(1) len by simp
  moreover have "take (nat (k + 1)) ?cs1 = take (nat k) cs @ [c]"
    using Cons.prems(2) by (simp add: k1)
  moreover have "drop (nat (k + 1)) ?cs1 = drop (nat k) cs"
    using Cons.prems(2) by (simp add: k1)
  ultimately show ?case using ins by simp
qed






subsection \<open>moveCues\<close>







lemma markWorkspaceModified_cues: "m_cues (markWorkspaceModified m) = m_cues m"
  by (simp add: markWorkspaceModified_def emit_def)




lemmas abcde_defs = abcde_def new_CueManager_def abcde_heap_def cue_with_def new_Cue_def

lemmas moveCues_eval =
  moveCues_def outcome_cues_def Let_def findCueIndex_def removeAt_def insertAt_def emit_def
  markWorkspaceModified_def and_then_def lockForWrite_def

text \<open>Moves of cues that are each named once, and calls that move nothing.\<close>

lemma moveCues_distinct_ids:
  "outcome_cues (moveCues Unlocked [''d'', ''zz'', ''a''] 3 abcde) = Inr (True, [2, 3, 1, 4, 5]) \<and>
   outcome_cues (moveCues Unlocked [''a''] 0 (abcde\<lparr>m_cues := [1, 2, 3]\<rparr>)) = Inr (True, [1, 2, 3]) \<and>
   moveCues Unlocked [] 3 abcde = Inr (False, abcde) \<and>
   moveCues Unlocked [''a''] 6 abcde = Inr (False, abcde) \<and>
   moveCues Unlocked [''zz''] 3 abcde = Inr (False, abcde)"
  by (simp add: moveCues_eval abcde_defs)

text \<open>
  C6 fails on an id list that names a cue twice. \<open>moveCues(["a", "a"], 3)\<close> on
  \<open>[a, b, c, d, e]\<close> collects the pair \<open>(a, 0)\<close> twice and removes at index 0 twice: the
  second removal takes \<open>b\<close>. It returns true with the list \<open>[c, a, a, d, e]\<close>, which has
  lost \<open>b\<close> and holds \<open>a\<close> twice. \<open>moveCues(["e", "e"], 0)\<close> removes at index 4 twice, the
  second time in a list of four cues, outside the range \<open>removeAt\<close> asserts.
\<close>

theorem moveCues_repeated_id:
  "outcome_cues (moveCues Unlocked [''a'', ''a''] 3 abcde) = Inr (True, [3, 1, 1, 4, 5]) \<and>
   m_cues abcde = [1, 2, 3, 4, 5] \<and>
   moveCues Unlocked [''e'', ''e''] 0 abcde = Inl Index_out_of_range"
  by (simp add: moveCues_eval abcde_defs)

section \<open>Properties of the manager: groups\<close>

lemma find_findCueIndex_loop:
  "find (\<lambda>a. m_id (h a) = cid) xs = Some g \<Longrightarrow>
   \<exists>i<length xs. findCueIndex_loop h cid xs k = k + int i \<and> xs ! i = g"
proof (induction xs arbitrary: k)
  case Nil
  then show ?case by simp
next
  case (Cons x xs)
  show ?case
  proof (cases "m_id (h x) = cid")
    case True
    then show ?thesis using Cons.prems by (intro exI [of _ 0]) simp
  next
    case False
    then obtain i where "i < length xs" "findCueIndex_loop h cid xs (k + 1) = k + 1 + int i"
      "xs ! i = g"
      using Cons.IH [of "k + 1"] Cons.prems by auto
    then show ?thesis using False by (intro exI [of _ "Suc i"]) simp
  qed
qed

lemma getCue_findCueIndex:
  "getCue m cid = Some g \<Longrightarrow>
   \<exists>i<length (m_cues m). findCueIndex m cid = int i \<and> m_cues m ! i = g"
  using find_findCueIndex_loop [of "heap m" cid "m_cues m" g 0]
  by (simp add: getCue_def findCueIndex_def)


lemma emit_cueAdded_cues: "m_cues (emit_cueAdded k cs m) = m_cues m"
  by (induction cs arbitrary: k m) (simp_all add: emit_def)

lemma read_locked_free [simp]:
  "read_locked Unlocked x = Inr x" "read_locked Locked_for_read x = Inr x"
  "read_locked Locked_for_write x = Inl Deadlock"
  by (simp_all add: read_locked_def lockForRead_def and_then_def)

lemma lockForWrite_simps [simp]:
  "lockForWrite Unlocked = Inr Locked_for_write"
  "lockForWrite Locked_for_read = Inl Deadlock" "lockForWrite Locked_for_write = Inl Deadlock"
  by (simp_all add: lockForWrite_def)

lemma and_then_simps [simp]:
  "and_then (Inl e) f = Inl e" "and_then (Inr x) f = f x"
  by (simp_all add: and_then_def)

lemma ungroupCues_splice:
  assumes "getCue m groupId = Some g" "is_GroupCue (heap m g)"
  shows "outcome_cues (ungroupCues Unlocked groupId m)
     = Inr (True, take (nat (findCueIndex m groupId)) (m_cues m) @ m_children (heap m g)
                  @ drop (Suc (nat (findCueIndex m groupId))) (m_cues m))"
proof -
  obtain i where i: "i < length (m_cues m)" "findCueIndex m groupId = int i"
    using getCue_findCueIndex [OF assms(1)] by blast
  let ?cs = "take i (m_cues m) @ drop (Suc i) (m_cues m)"
  have rm: "removeAt (int i) (m_cues m) = Inr ?cs"
    using i(1) by (simp add: removeAt_def)
  have "nat (int i) \<le> length ?cs" using i(1) by simp
  then have "insert_loop (int i) (m_children (heap m g)) ?cs
      = Inr (take i ?cs @ m_children (heap m g) @ drop i ?cs)"
    using insert_loop_block [of "int i" ?cs "m_children (heap m g)"] by simp
  moreover have "take i ?cs = take i (m_cues m)" "drop i ?cs = drop (Suc i) (m_cues m)"
    using i(1) by simp_all
  ultimately have "insert_loop (int i) (m_children (heap m g)) ?cs
      = Inr (take i (m_cues m) @ m_children (heap m g) @ drop (Suc i) (m_cues m))"
    by simp
  then show ?thesis
    using assms i(2) rm
    by (simp add: ungroupCues_def outcome_cues_def Let_def emit_def emit_cueAdded_cues
        markWorkspaceModified_cues)
qed

lemma ungroupCues_not_a_group:
  assumes "getCue m groupId = None \<or> (\<exists>a. getCue m groupId = Some a \<and> \<not> is_GroupCue (heap m a))"
  shows "ungroupCues Unlocked groupId m = Inr (False, m)"
  using assms by (auto simp: ungroupCues_def)

text \<open>
  \<open>createGroupFromCues\<close> with a non-empty id list never returns: it holds the lock on
  the cue list for writing when its first loop calls \<open>getCue\<close>, which waits for the same
  lock. With no ids it returns the empty id and leaves the manager as it is.
\<close>

lemma createGroupFromCues_blocks:
  "cueIds \<noteq> [] \<Longrightarrow>
   createGroupFromCues Unlocked toDouble number_f0 g uuid now cueIds m = Inl Deadlock"
  by (cases cueIds) (simp_all add: createGroupFromCues_def)

lemma createGroupFromCues_no_ids:
  "createGroupFromCues l toDouble number_f0 g uuid now [] m = Inr ([], m)"
  by (simp add: createGroupFromCues_def)

lemmas group_defs =
  with_group_def ungroupCues_def outcome_cues_def getCue_def findCueIndex_def Let_def
  abcde_defs removeAt_def insertAt_def emit_def markWorkspaceModified_def is_GroupCue_def

text \<open>
  C3, as the code has it. \<open>ungroupCues\<close> on a group of the list succeeds and puts the
  children of the group, in the order the group holds them, where the group was: the
  cues before the group, then the children, then the cues after the group. On
  \<open>[a, Group(b, d), c, e]\<close> the list becomes \<open>[a, b, d, c, e]\<close>, and on
  \<open>[a, Group(b, c), d, e]\<close> it becomes \<open>[a, b, c, d, e]\<close>. On an id that is not the id
  of a group of the list it fails and changes nothing.
\<close>

theorem ungroupCues_splices_children:
  "(getCue m groupId = Some grp \<and> is_GroupCue (heap m grp)
      \<longrightarrow> outcome_cues (ungroupCues Unlocked groupId m)
            = Inr (True, take (nat (findCueIndex m groupId)) (m_cues m) @ m_children (heap m grp)
                         @ drop (Suc (nat (findCueIndex m groupId))) (m_cues m))) \<and>
   (getCue m groupId = None \<longrightarrow> ungroupCues Unlocked groupId m = Inr (False, m)) \<and>
   (getCue m groupId = Some grp \<and> \<not> is_GroupCue (heap m grp)
      \<longrightarrow> ungroupCues Unlocked groupId m = Inr (False, m)) \<and>
   outcome_cues (ungroupCues Unlocked ''g'' (with_group [1, 6, 3, 5] [2, 4]))
     = Inr (True, [1, 2, 4, 3, 5]) \<and>
   outcome_cues (ungroupCues Unlocked ''g'' (with_group [1, 6, 4, 5] [2, 3]))
     = Inr (True, [1, 2, 3, 4, 5])"
proof -
  have 1: "outcome_cues (ungroupCues Unlocked ''g'' (with_group [1, 6, 3, 5] [2, 4]))
      = Inr (True, [1, 2, 4, 3, 5])"
    by (simp add: group_defs)
  have 2: "outcome_cues (ungroupCues Unlocked ''g'' (with_group [1, 6, 4, 5] [2, 3]))
      = Inr (True, [1, 2, 3, 4, 5])"
    by (simp add: group_defs)
  show ?thesis
    using ungroupCues_splice [of m groupId grp] ungroupCues_not_a_group [of m groupId] 1 2
    by blast
qed

theorem ungroupCues_splices_children_witness:
  "getCue (with_group [1, 6, 3, 5] [2, 4]) ''g'' = Some 6 \<and>
   is_GroupCue (heap (with_group [1, 6, 3, 5] [2, 4]) 6) \<and>
   findCueIndex (with_group [1, 6, 3, 5] [2, 4]) ''g'' = 1 \<and>
   outcome_cues (ungroupCues Unlocked ''g'' (with_group [1, 6, 3, 5] [2, 4]))
     = Inr (True, [1] @ [2, 4] @ [3, 5]) \<and>
   getCue (with_group [1, 6, 3, 5] [2, 4]) ''b'' = None \<and>
   ungroupCues Unlocked ''b'' (with_group [1, 6, 3, 5] [2, 4])
     = Inr (False, with_group [1, 6, 3, 5] [2, 4]) \<and>
   getCue (with_group [1, 6, 3, 5] [2, 4]) ''a'' = Some 1 \<and>
   \<not> is_GroupCue (heap (with_group [1, 6, 3, 5] [2, 4]) 1) \<and>
   ungroupCues Unlocked ''a'' (with_group [1, 6, 3, 5] [2, 4])
     = Inr (False, with_group [1, 6, 3, 5] [2, 4])"
proof -
  let ?m = "with_group [1, 6, 3, 5] [2, 4]"
  have g: "getCue ?m ''g'' = Some 6" "is_GroupCue (heap ?m 6)" "findCueIndex ?m ''g'' = 1"
    "m_children (heap ?m 6) = [2, 4]" "m_cues ?m = [1, 6, 3, 5]"
    by (simp_all add: group_defs)
  have b: "getCue ?m ''b'' = None" by (simp add: group_defs)
  have a: "getCue ?m ''a'' = Some 1" "\<not> is_GroupCue (heap ?m 1)" by (simp_all add: group_defs)
  show ?thesis
    using g b a ungroupCues_splices_children [of ?m "''g''" 6]
      ungroupCues_splices_children [of ?m "''b''" 6]
      ungroupCues_splices_children [of ?m "''a''" 1]
    by simp
qed

text \<open>
  The list \<open>[a, Group(b, d), c, e]\<close> that the claim names: ungrouping gives
  \<open>[a, b, d, c, e]\<close>, not the list \<open>[a, b, c, d, e]\<close> of the five cues.
\<close>

theorem ungroupCues_restores_counterexample:
  "m_cues (with_group [1, 6, 3, 5] [2, 4]) = [1, 6, 3, 5] \<and>
   m_children (heap (with_group [1, 6, 3, 5] [2, 4]) 6) = [2, 4] \<and>
   m_cues abcde = [1, 2, 3, 4, 5] \<and>
   outcome_cues (ungroupCues Unlocked ''g'' (with_group [1, 6, 3, 5] [2, 4]))
     = Inr (True, [1, 2, 4, 3, 5]) \<and>
   outcome_cues (ungroupCues Unlocked ''g'' (with_group [1, 6, 3, 5] [2, 4]))
     \<noteq> Inr (True, m_cues abcde)"
  by (simp add: group_defs)

section \<open>Properties of the manager: removing cues\<close>

lemma removeCues_step_absent:
  "findCueIndex m cid < 0 \<Longrightarrow> removeCues_step cue_stop cid (b, m) = Inr (b, m)"
  by (simp add: removeCues_step_def Let_def)

lemma removeCues_step_found:
  assumes "0 \<le> findCueIndex m cid"
  shows "\<exists>m'. removeCues_step cue_stop cid (b, m) = Inr (True, m')"
proof -
  have "cid \<in> (\<lambda>a. m_id (heap m a)) ` set (m_cues m)"
    using assms by (simp add: findCueIndex_nonneg_iff)
  then obtain i where i: "i < length (m_cues m)" "findCueIndex m cid = int i"
    using findCueIndex_present by blast
  have "removeAt (int i) (m_cues m) = Inr (take i (m_cues m) @ drop (Suc i) (m_cues m))"
    using i(1) by (simp add: removeAt_def)
  then show ?thesis
    using i(2) by (simp add: removeCues_step_def Let_def invoke_stop_frame)
qed

lemma removeCues_loop_absent:
  "\<forall>cid\<in>set cueIds. findCueIndex m cid < 0 \<Longrightarrow>
   removeCues_loop cue_stop cueIds (b, m) = Inr (b, m)"
  by (induction cueIds) (simp_all add: removeCues_step_absent)

lemma removeCues_loop_flag:
  "\<exists>m'. removeCues_loop cue_stop cueIds (True, m) = Inr (True, m')"
proof (induction cueIds arbitrary: m)
  case Nil
  then show ?case by simp
next
  case (Cons cid cueIds)
  show ?case
  proof (cases "0 \<le> findCueIndex m cid")
    case True
    then obtain m1 where "removeCues_step cue_stop cid (True, m) = Inr (True, m1)"
      using removeCues_step_found by blast
    then show ?thesis using Cons.IH [of m1] by simp
  next
    case False
    then have "removeCues_step cue_stop cid (True, m) = Inr (True, m)"
      by (simp add: removeCues_step_absent)
    then show ?thesis using Cons.IH [of m] by simp
  qed
qed

lemma removeCues_loop_found:
  "\<exists>cid\<in>set cueIds. 0 \<le> findCueIndex m cid \<Longrightarrow>
   \<exists>m'. removeCues_loop cue_stop cueIds (False, m) = Inr (True, m')"
proof (induction cueIds)
  case Nil
  then show ?case by simp
next
  case (Cons cid cueIds)
  show ?case
  proof (cases "0 \<le> findCueIndex m cid")
    case True
    then obtain m1 where "removeCues_step cue_stop cid (False, m) = Inr (True, m1)"
      using removeCues_step_found by blast
    then show ?thesis using removeCues_loop_flag [of cue_stop cueIds m1] by simp
  next
    case False
    then have "removeCues_step cue_stop cid (False, m) = Inr (False, m)"
      by (simp add: removeCues_step_absent)
    moreover have "\<exists>cid\<in>set cueIds. 0 \<le> findCueIndex m cid"
      using Cons.prems False by auto
    ultimately show ?thesis using Cons.IH by simp
  qed
qed

text \<open>
  \<open>updateStandByCue\<close> begins with a call of \<open>getCue\<close>, whatever the standby id is; under
  the write lock of \<open>removeCues\<close> that call waits for ever.
\<close>

lemma updateStandByCue_blocks: "updateStandByCue Locked_for_write m = Inl Deadlock"
  by (simp add: updateStandByCue_def)

text \<open>
  What \<open>removeCues\<close> does, for every id list and every manager: when no id is the id
  of a cue of the list it returns false and changes nothing; when one is, it never
  returns.
\<close>

lemma removeCues_none_found:
  "\<forall>cid\<in>set cueIds. findCueIndex m cid < 0 \<Longrightarrow>
   removeCues Unlocked cue_stop cueIds m = Inr (False, m)"
  by (simp add: removeCues_def removeCues_loop_absent)

lemma removeCues_blocks:
  assumes "\<exists>cid\<in>set cueIds. 0 \<le> findCueIndex m cid"
  shows "removeCues Unlocked cue_stop cueIds m = Inl Deadlock"
proof -
  obtain m1 where "removeCues_loop cue_stop cueIds (False, m) = Inr (True, m1)"
    using removeCues_loop_found [OF assms] by blast
  then show ?thesis by (simp add: removeCues_def updateStandByCue_blocks)
qed

lemmas running_defs = abcde_running_def abcde_defs

text \<open>
  C5 fails on the code: \<open>removeCues(["a"])\<close> in the running show never returns. The loop
  does what the claim says (it stops the executing cue \<open>a\<close>, takes it out of the
  selection, the standby id, the active cues and the list), and then \<open>updateStandByCue\<close>
  calls \<open>getCue\<close>, which waits for the lock that \<open>removeCues\<close> itself holds for writing.
  Only a call that finds none of its ids returns.
\<close>

theorem removeCues_never_returns:
  "removeCues Unlocked (Cue_stop_spec curtain_up) [''a''] abcde_running = Inl Deadlock \<and>
   outcome_cues (removeCues_loop (Cue_stop_spec curtain_up) [''a''] (False, abcde_running))
     = Inr (True, [2, 3, 4, 5]) \<and>
   removeCues Unlocked (Cue_stop_spec curtain_up) [''zz''] abcde_running
     = Inr (False, abcde_running)"
proof -
  have f: "findCueIndex abcde_running ''a'' = 0" "findCueIndex abcde_running ''zz'' = - 1"
    by (simp_all add: findCueIndex_def running_defs)
  have 1: "removeCues Unlocked (Cue_stop_spec curtain_up) [''a''] abcde_running = Inl Deadlock"
    using f(1) by (intro removeCues_blocks) simp
  have 2: "outcome_cues (removeCues_loop (Cue_stop_spec curtain_up) [''a''] (False, abcde_running))
      = Inr (True, [2, 3, 4, 5])"
    using f(1)
    by (simp add: removeCues_step_def Let_def removeAt_def outcome_cues_def emit_def
        invoke_stop_frame)
      (simp add: running_defs)
  have 3: "removeCues Unlocked (Cue_stop_spec curtain_up) [''zz''] abcde_running
      = Inr (False, abcde_running)"
    using f(2) by (intro removeCues_none_found) simp
  show ?thesis using 1 2 3 by simp
qed

section \<open>Properties of the manager: selection\<close>












text \<open>
  \<open>ungroupCues\<close> takes the group out of the list and leaves the selection as it is, so
  the id of a selected group stays selected.
\<close>

lemma ungroupCues_keeps_selected_group:
  "selection_valid ((with_group [1, 6, 3, 5] [2, 4])\<lparr>m_selectedCueIds := [''g'']\<rparr>) \<and>
   (\<exists>m'. ungroupCues Unlocked ''g'' ((with_group [1, 6, 3, 5] [2, 4])\<lparr>m_selectedCueIds := [''g'']\<rparr>)
            = Inr (True, m') \<and>
      m_selectedCueIds m' = [''g''] \<and> \<not> selection_valid m')"
  by (simp add: selection_valid_def group_defs)




section \<open>Properties of the cue: serialization\<close>

subsection \<open>What each setter changes\<close>








































subsection \<open>What \<open>fromJson\<close> reads\<close>



















subsection \<open>Writing, then reading\<close>



text \<open>
  At the tolerance: the \<open>double\<close> nearest to \<open>5.001\<close> differs from \<open>5.0\<close> by more than the
  \<open>double\<close> nearest to \<open>0.001\<close>, and \<open>setDuration\<close> on a new cue stores it.
\<close>

lemma setDuration_at_the_tolerance:
  "round_to_double (5001 / 1000) = Finite (5630625434119963 / 2 ^ 50) \<and>
   m_duration (fst (setDuration now (Finite (5630625434119963 / 2 ^ 50))
                      (new_Cue Audio uuid created, [])))
     = Finite (5630625434119963 / 2 ^ 50)"
  by (simp add: setDuration_def new_Cue_def markModified_def dsub_def qAbs_def qMax_def dle_def
      tolerance_value double_eval)





end
